theory Spec2Isabelle
  imports Complex_Main
begin

section \<open>The Studentised maximum range: probability and quantile\<close>

text \<open>
  A shallow embedding of \<^verbatim>\<open>rng_lp.c\<close>, \<^verbatim>\<open>smrng_lp.c\<close> and \<^verbatim>\<open>smrng_lq.c\<close>.

  Numbers. A C \<^verbatim>\<open>double\<close> is modelled by a \<open>real\<close>: arithmetic and comparisons are
  exact, so rounding, overflow to infinity and NaN are outside the model. The one
  infinity that the arguments alone can produce, the chi-square cutoffs at a \<^verbatim>\<open>df\<close> whose
  square wraps to 0, is modelled (see \<open>cutoff\<close> below). A C \<^verbatim>\<open>int\<close> is 32 bits wide. An
  \<^verbatim>\<open>int\<close> argument is an \<open>int\<close>, taken to lie in that range; the one \<^verbatim>\<open>int\<close> operation
  whose result can leave the range, the product \<^verbatim>\<open>df*df\<close>, is taken with its wrap-around
  (\<open>c_int_mul\<close>). The conversion of an \<^verbatim>\<open>int\<close> operand to \<^verbatim>\<open>double\<close> is \<open>real_of_int\<close>.

  The normal probability \<^verbatim>\<open>nrml_p(u, upper)\<close> lives in \<^verbatim>\<open>nrml_p.c\<close>, which is not among
  the sources; every function that calls it takes it as its first argument.
\<close>

subsection \<open>The C library and the operators of C\<close>

text \<open>
  \<^verbatim>\<open>pow(x, y)\<close>: for an integral \<open>y\<close> the repeated product (or its inverse), for any
  other \<open>y\<close> the real power. C gives NaN for a negative base with a non-integral
  exponent and infinity for a zero base with a negative exponent; those two cases are
  outside the model. \<^verbatim>\<open>log\<close> is \<open>ln\<close>, \<^verbatim>\<open>exp\<close> is \<open>exp\<close>, \<^verbatim>\<open>sqrt\<close> is \<open>sqrt\<close>,
  \<^verbatim>\<open>fabs\<close> is the absolute value; C's \<^verbatim>\<open>log\<close> and \<^verbatim>\<open>sqrt\<close> of a negative number are
  NaN and outside the model as well, and so is a division by zero (infinity or NaN in C,
  0 here) other than the one in the chi-square cutoffs.
\<close>

definition pow :: "real \<Rightarrow> real \<Rightarrow> real" where
  "pow x y = (if y \<in> \<int> then x powi \<lfloor>y\<rfloor> else x powr y)"

text \<open>\<^verbatim>\<open>a % b\<close> on \<^verbatim>\<open>int\<close>: the remainder of the division that truncates towards zero.\<close>

definition c_rem :: "int \<Rightarrow> int \<Rightarrow> int" where
  "c_rem a b = sgn a * (\<bar>a\<bar> mod \<bar>b\<bar>)"

text \<open>
  \<^verbatim>\<open>a * b\<close> on \<^verbatim>\<open>int\<close>: the product in 32-bit two's complement, as the machine gives it.
  It is the exact product as long as that lies between \<open>-2\<^sup>3\<^sup>1\<close> and \<open>2\<^sup>3\<^sup>1 - 1\<close>; for
  \<^verbatim>\<open>df*df\<close> that is up to \<open>df = 46340\<close>.
\<close>

definition c_int_mul :: "int \<Rightarrow> int \<Rightarrow> int" where
  "c_int_mul a b = (a * b + 2 ^ 31) mod 2 ^ 32 - 2 ^ 31"

type_synonym normal_prob = "real \<Rightarrow> int \<Rightarrow> real"

subsection \<open>\<^verbatim>\<open>rng_lp.c\<close>: lower probability of the range\<close>

definition BORDER :: real where
  "BORDER = 3.7"

definition CNST0 :: real where
  "CNST0 = 0.398942280401432677939946059934381868"

text \<open>The macros \<^verbatim>\<open>MAX(X, Y)\<close> and \<^verbatim>\<open>MIN(X, Y)\<close>.\<close>

definition MAX_macro :: "real \<Rightarrow> real \<Rightarrow> real" where
  "MAX_macro X Y = (if X < Y then Y else X)"

definition MIN_macro :: "real \<Rightarrow> real \<Rightarrow> real" where
  "MIN_macro X Y = (if X < Y then X else Y)"

text \<open>Normal probability in the interval \<open>(a, b)\<close>.\<close>

definition nrml_ip :: "normal_prob \<Rightarrow> real \<Rightarrow> real \<Rightarrow> real" where
  "nrml_ip nrml_p a b =
     (if a \<ge> b then 0
      else if a > BORDER then nrml_p a 1 - nrml_p b 1
      else if b < - BORDER then nrml_p b 0 - nrml_p a 0
      else nrml_p b 2 - nrml_p a 2)"

text \<open>Upper integral limit for Hartley's formula.\<close>

definition ulim :: "real \<Rightarrow> int \<Rightarrow> real" where
  "ulim r k0 =
     (let k = (if k0 > 1000 then 1000 else k0);
          ulim13 = 1.403 * sqrt (ln (real_of_int k) + 28.127);
          w = ln (real_of_int k);
          rmin = exp (2.3641 - 4.669 / w - 9.499 / (w * w) - 13.293 / (w * w * w))
      in if r \<le> rmin then 0
         else if k \<le> 10 then
           (let d1 = 0.02173 * ln (8.7 / (real_of_int k - 1.3));
                d2 = 8.4 + 0.2 * real_of_int k;
                z = MIN_macro 1 (MAX_macro 0 (d1 * (d2 - r)) + 0.199 + 0.134 * r - 0.00500 * r * r)
            in ulim13 * z)
         else
           (let rmin10 = 0.07856;
                a1 = (if k < 30 then 8.889 * ln (real_of_int k - 3) + 24.70 else 54);
                a2 = (if k < 30 then 0.06873 * ln (real_of_int k - 7) + 0.9245 else 1.14);
                a3 = (if k < 22 then - 0.6031 * ln (real_of_int k + 6) + 1.6877
                      else if k \<le> 35 then - 0.31
                      else 0.308 * ln (real_of_int k - 5) - 1.3576);
                w' = a1 * pow ((r - rmin + rmin10) / (42 - rmin + rmin10)) a2 + a3;
                z = (if w' > 9 then 1 else 0.199 + 0.134 * w' - 0.00500 * w' * w')
            in ulim13 * z))"

text \<open>The integrand \<^verbatim>\<open>f\<close> of \<^verbatim>\<open>rng_lp.c\<close> (\<^verbatim>\<open>smrng_lp.c\<close> has a static \<^verbatim>\<open>f\<close> of its own).\<close>

definition rng_f :: "normal_prob \<Rightarrow> real \<Rightarrow> real \<Rightarrow> int \<Rightarrow> real" where
  "rng_f nrml_p x r k =
     exp (- 0.5 * x * x) * pow (nrml_ip nrml_p (x - r) x) (real_of_int (k - 1))"

text \<open>The 20 nodes and weights of \<^verbatim>\<open>rng_lp\<close> (10 pairs, each used at \<open>\<plusminus>\<close> the node).\<close>

definition rng_nd :: "real list" where
  "rng_nd =
    [0.993128599185094924786122388471320278,
     0.963971927277913791267666131197277222,
     0.912234428251325905867752441203298113,
     0.839116971822218823394529061701520685,
     0.746331906460150792614305070355641590,
     0.636053680726515025452836696226285937,
     0.510867001950827098004364050955250998,
     0.373706088715419560672548177024927237,
     0.227785851141645078080496195368574625,
     0.0765265211334973337546404093988382110]"

definition rng_wt :: "real list" where
  "rng_wt =
    [0.0176140071391521183118619623518528164,
     0.0406014298003869413310399522749321099,
     0.0626720483341090635695065351870416064,
     0.0832767415767047487247581432220462061,
     0.101930119817240435036750135480349876,
     0.118194531961518417312377377711382287,
     0.131688638449176626898494499748163135,
     0.142096109318382051329298325067164933,
     0.149172986472603746787828737001969437,
     0.152753387130725850698084331955097593]"

text \<open>
  \<^verbatim>\<open>rng_lp(r, k)\<close>. The loop over \<^verbatim>\<open>ix\<close> is the \<open>fold\<close> over \<open>[0..<10]\<close>, with \<open>p\<close> its
  accumulator.
\<close>

definition rng_lp :: "normal_prob \<Rightarrow> real \<Rightarrow> int \<Rightarrow> real" where
  "rng_lp nrml_p r k =
     (if r \<le> 0 then 0
      else if k = 2 then 2 * nrml_p (r / sqrt 2) 2
      else
        (let xu = ulim r k;
             p = (if xu > 0.5 * r then
                    (let wdth = 0.5 * (xu - 0.5 * r);
                         cntr = 0.5 * (xu + 0.5 * r);
                         p = fold (\<lambda>ix p. p + rng_wt ! ix *
                                     (rng_f nrml_p (cntr - wdth * rng_nd ! ix) r k
                                      + rng_f nrml_p (cntr + wdth * rng_nd ! ix) r k))
                               [0..<10] 0
                     in p * (2 * real_of_int k * wdth * CNST0))
                  else 0)
         in p + pow (2 * nrml_p (0.5 * r) 2) (real_of_int k)))"

subsection \<open>\<^verbatim>\<open>smrng_lp.c\<close>: lower probability of the Studentised maximum range\<close>

definition LOGSQRTPI :: real where
  "LOGSQRTPI = 0.572364942924700087071713675676529356"

text \<open>Upper limit of max range with approx upper prob=0.5e-13.\<close>

definition rupper :: "int \<Rightarrow> int \<Rightarrow> real" where
  "rupper k nrng =
     (let rn1 = 0.42 * pow (ln (real_of_int k - 0.5)) 0.9 + 10.465
      in if nrng \<le> 1 then rn1
         else
           (let rn100 = 0.2866 * pow (ln (real_of_int k - 0.9)) 1.05 + 11.451;
                y = 0.2273 * (rn100 - rn1) * pow (ln (real_of_int nrng)) 0.97 + rn1
            in y))"

text \<open>Lower limit of max range with approx lower prob=0.5e-13.\<close>

definition rlower :: "int \<Rightarrow> int \<Rightarrow> real" where
  "rlower k nrng =
     (if k \<le> 40 then
        (let z1 = - 27.12 / pow (ln (real_of_int k + 0.5)) 2.1 + 1.8800
         in if nrng \<le> 1 then exp z1
            else
              (let z100 = - 5.749 / pow (ln (real_of_int k)) 0.12 + 6.4651;
                   dk = (if k < 8 then 2.934 / (real_of_int k + 1.0) + 0.522
                         else 0.86 - 0.0015 * real_of_int k);
                   bk = (if k < 8 then 7.88 / (real_of_int k + 2.0) + 0.112
                         else 16.875 / (real_of_int k + 10.0) - 0.0375);
                   x1 = 1.0 / pow (ln (1.0 + dk)) bk;
                   x100 = 1.0 / pow (ln (100.0 + dk)) bk;
                   x = 1.0 / pow (ln (real_of_int nrng + dk)) bk
               in exp ((z100 - z1) / (x100 - x1) * (x - x1) + z1)))
      else
        (let z1 = 449.4 * pow (ln (real_of_int k + 10.0)) 0.012 - 455.6678
         in if nrng \<le> 1 then z1
            else
              (let z100 = 3.149 * pow (ln (real_of_int k + 1.0)) 0.48 - 1.2017;
                   bk = (if k \<le> 55 then - 0.08478 * ln (real_of_int k) + 0.5738
                         else 0.03220 * ln (real_of_int k) + 0.1050);
                   x1 = pow (ln 2.0) bk;
                   x100 = pow (ln 101.0) bk;
                   x = pow (ln (real_of_int nrng + 1.0)) bk
               in (z100 - z1) / (x100 - x1) * (x - x1) + z1)))"

text \<open>
  The chi-square cutoffs read a table of five entries at the index \<^verbatim>\<open>df-1\<close>. A read
  outside the table is undefined behaviour in C: \<open>read_first\<close> gives \<open>None\<close> there, and
  so do \<open>chi2u\<close> and \<open>chi2l\<close>.
\<close>

definition read_first :: "real list \<Rightarrow> int \<Rightarrow> real option" where
  "read_first first i = (if 0 \<le> i \<and> i < int (length first) then Some (first ! nat i) else None)"

text \<open>
  In \<^verbatim>\<open>c/(df*df)\<close> both operands of the product are \<^verbatim>\<open>int\<close>, so the product is taken in
  \<^verbatim>\<open>int\<close>, with its wrap-around, before it is converted. When \<^verbatim>\<open>df\<close> is a multiple of
  65536 the product wraps to 0, and \<^verbatim>\<open>c/0.0\<close> with \<open>c > 0\<close> is \<open>+\<infinity>\<close> in C; so are then
  \<^verbatim>\<open>w\<close> and, \<^verbatim>\<open>sqrt(ddf)\<close> and \<^verbatim>\<open>df\<close> being positive, the value \<^verbatim>\<open>z\<close> that is returned. A
  \<open>cutoff\<close> is a \<^verbatim>\<open>double\<close> that is a real number or \<open>+\<infinity>\<close>, with the comparisons
  \<^verbatim>\<open><=\<close> and \<^verbatim>\<open><\<close> of C on such values.
\<close>

datatype cutoff = Finite real | PlusInfinity

fun cutoff_le :: "cutoff \<Rightarrow> cutoff \<Rightarrow> bool" where
  "cutoff_le (Finite x) (Finite y) = (x \<le> y)"
| "cutoff_le (Finite x) PlusInfinity = True"
| "cutoff_le PlusInfinity (Finite y) = False"
| "cutoff_le PlusInfinity PlusInfinity = True"

fun cutoff_less :: "cutoff \<Rightarrow> cutoff \<Rightarrow> bool" where
  "cutoff_less (Finite x) (Finite y) = (x < y)"
| "cutoff_less (Finite x) PlusInfinity = True"
| "cutoff_less PlusInfinity (Finite y) = False"
| "cutoff_less PlusInfinity PlusInfinity = False"

text \<open>Upper limit for chi^2(df) with approx upper prob=0.5e-13.\<close>

definition chi2u :: "int \<Rightarrow> cutoff option" where
  "chi2u df =
     (let first = [56.73, 61.26, 65.01, 68.38, 71.50];
          ddf = 2.0 / 9.0 / real_of_int df
      in if df \<le> 5 then map_option Finite (read_first first (df - 1))
         else if c_int_mul df df = 0 then Some PlusInfinity
         else
           (let w = (if df \<le> 20
                     then 7.391 - 3.050 / real_of_int df + 5.208 / real_of_int (c_int_mul df df)
                     else 7.441 - 5.209 / real_of_int df + 29.27 / real_of_int (c_int_mul df df));
                z = real_of_int df * pow (w * sqrt ddf + (1.0 - ddf)) 3.0
            in Some (Finite z)))"

text \<open>Lower limit for chi^2(df) with approx lower prob=0.5e-13.\<close>

definition chi2l :: "int \<Rightarrow> cutoff option" where
  "chi2l df =
     (let first = [3.926 / 10 ^ 27, 1.0 / 10 ^ 13, 3.281 / 10 ^ 9, 6.324 / 10 ^ 7,
                   1.546 / 10 ^ 5];
          ddf = 2.0 / 9.0 / real_of_int df
      in if df \<le> 5 then map_option Finite (read_first first (df - 1))
         else if c_int_mul df df = 0 then Some PlusInfinity
         else if df \<le> 20 then
           (let w = - 8.645 - 70.72 / real_of_int df + 77.47 / real_of_int (c_int_mul df df);
                z = real_of_int df * exp (w / sqrt (0.5 * real_of_int df) - 1.0 / real_of_int df)
            in Some (Finite z))
         else
           (let w = - 7.451 + 10.07 / real_of_int df + 82.83 / real_of_int (c_int_mul df df);
                z = real_of_int df * pow (w * sqrt ddf + (1.0 - ddf)) 3.0
            in Some (Finite z)))"

text \<open>
  Coefficient of chi distribution. The loop \<^verbatim>\<open>for(n=df-2; n > 0; n -= 2)\<close> is
  \<open>coef_loop\<close>, with \<open>g\<close> its accumulator.
\<close>

function coef_loop :: "int \<Rightarrow> real \<Rightarrow> real" where
  "coef_loop n g = (if n > 0 then coef_loop (n - 2) (g + ln (0.5 * real_of_int n)) else g)"
  by pat_completeness auto
termination
  by (relation "measure (\<lambda>(n, g). nat n)") auto

declare coef_loop.simps [simp del]

definition coef :: "int \<Rightarrow> real" where
  "coef df =
     (let g = (if c_rem df 2 = 1 then LOGSQRTPI else 0.0)
      in 2.0 * exp (0.5 * real_of_int df * (ln (0.5 * real_of_int df) - 1.0)
                    - coef_loop (df - 2) g))"

text \<open>The integrand \<^verbatim>\<open>f\<close> of \<^verbatim>\<open>smrng_lp.c\<close>.\<close>

definition smrng_f :: "normal_prob \<Rightarrow> real \<Rightarrow> int \<Rightarrow> int \<Rightarrow> int \<Rightarrow> real \<Rightarrow> int \<Rightarrow> real" where
  "smrng_f nrml_p s k df nrng q isw =
     (let y = exp ((real_of_int df - 1.0) * ln s + 0.5 * real_of_int df * (1.0 - s * s))
      in if isw = 0 then y
         else y * pow (rng_lp nrml_p (s * q) k) (real_of_int nrng))"

text \<open>The 40 nodes and weights of \<^verbatim>\<open>smrng_lp\<close> (20 pairs).\<close>

definition smrng_nd :: "real list" where
  "smrng_nd =
    [0.998237709710559200349622702420586492,
     0.990726238699457006453054352221372155,
     0.977259949983774262663370283712903807,
     0.957916819213791655804540999452759285,
     0.932812808278676533360852166845205716,
     0.902098806968874296728253330868493104,
     0.865959503212259503820781808354619964,
     0.824612230833311663196320230666098774,
     0.778305651426519387694971545506494848,
     0.727318255189927103280996451754930549,
     0.671956684614179548379354514961494110,
     0.612553889667980237952612450230694877,
     0.549467125095128202075931305529517970,
     0.483075801686178712908566574244823005,
     0.413779204371605001524879745803713683,
     0.341994090825758473007492481179194310,
     0.268152185007253681141184344808596183,
     0.192697580701371099715516852065149895,
     0.116084070675255208483451284408024114,
     0.0387724175060508219331934440246232947]"

definition smrng_wt :: "real list" where
  "smrng_wt =
    [0.00452127709853319125847173287818533273,
     0.0104982845311528136147421710672796524,
     0.0164210583819078887128634848823639273,
     0.0222458491941669572615043241842085732,
     0.0279370069800234010984891575077210773,
     0.0334601952825478473926781830864108490,
     0.0387821679744720176399720312904461623,
     0.0438709081856732719916746860417154958,
     0.0486958076350722320614341604481463881,
     0.0532278469839368243549964797722605046,
     0.0574397690993915513666177309104259856,
     0.0613062424929289391665379964083985959,
     0.0648040134566010380745545295667527300,
     0.0679120458152339038256901082319239860,
     0.0706116473912867796954836308552868324,
     0.0728865823958040590605106834425178359,
     0.0747231690579682642001893362613246732,
     0.0761103619006262423715580759224948230,
     0.0770398181642479655883075342838102485,
     0.0775059479784248112637239629583263270]"

text \<open>
  The local variables of \<^verbatim>\<open>smrng_lp\<close> that its integration loop reads and writes.
  \<^verbatim>\<open>sll\<close> is unassigned in C when the loop starts with \<^verbatim>\<open>isw = 1\<close> and is never read
  then; the model starts it at 0.
\<close>

record quad_state =
  qs_sl :: real
  qs_su :: real
  qs_sll :: real
  qs_ruq :: real
  qs_p :: real
  qs_isw :: int

text \<open>
  \<^verbatim>\<open>sqrt(c/df)\<close> for a cutoff \<open>c\<close> and the \<^verbatim>\<open>int\<close> \<open>df\<close>, which is positive where
  \<^verbatim>\<open>smrng_lp\<close> computes it: \<open>+\<infinity>\<close> stays \<open>+\<infinity>\<close>.
\<close>

definition cutoff_scale :: "cutoff \<Rightarrow> int \<Rightarrow> cutoff" where
  "cutoff_scale c df =
     (case c of Finite x \<Rightarrow> Finite (sqrt (x / real_of_int df)) | PlusInfinity \<Rightarrow> PlusInfinity)"

text \<open>
  \<^verbatim>\<open>smrng_lp\<close> from \<^verbatim>\<open>// Upper and lower integral limits\<close> up to the loop: \<open>Inl v\<close> is
  \<^verbatim>\<open>return(v)\<close>, \<open>Inr st\<close> the variables on entering the loop, \<open>None\<close> a read outside a
  table of \<open>chi2l\<close> or \<open>chi2u\<close>. The limits \<^verbatim>\<open>sl\<close> and \<^verbatim>\<open>su\<close> are cutoffs up to the test
  \<^verbatim>\<open>if(ruq <= sl)\<close>, which an infinite \<^verbatim>\<open>sl\<close> passes; after it \<^verbatim>\<open>sl\<close> is a real number.
  An integration up to an infinite \<^verbatim>\<open>su\<close> would give NaN in C, which is outside the
  model: it is \<open>None\<close> as well, and no \<^verbatim>\<open>df\<close> leads there, since \<open>chi2u\<close> is infinite only
  where \<open>chi2l\<close> is.
\<close>

definition smrng_lp_limits :: "real \<Rightarrow> int \<Rightarrow> int \<Rightarrow> int \<Rightarrow> (real + quad_state) option" where
  "smrng_lp_limits q k df nrng =
     (case chi2l df of
        None \<Rightarrow> None
      | Some cl \<Rightarrow>
     (case chi2u df of
        None \<Rightarrow> None
      | Some cu \<Rightarrow>
          (let sl = cutoff_scale cl df;
               su = cutoff_scale cu df;
               rlq = rlower k nrng / q
           in if cutoff_le su (Finite rlq) then Some (Inl 0.0)
              else
                (let sl = (if cutoff_less sl (Finite rlq) then Finite rlq else sl);
                     ruq = rupper k nrng / q
                 in if cutoff_le (Finite ruq) sl then Some (Inl 1.0)
                    else
                      (case (sl, su) of
                         (Finite sl, Finite su) \<Rightarrow>
                           if ruq < su
                           then Some (Inr \<lparr>qs_sl = ruq, qs_su = su, qs_sll = sl, qs_ruq = ruq,
                                           qs_p = 0.0, qs_isw = 0\<rparr>)
                           else Some (Inr \<lparr>qs_sl = sl, qs_su = su, qs_sll = 0, qs_ruq = ruq,
                                           qs_p = 0.0, qs_isw = 1\<rparr>)
                       | _ \<Rightarrow> None)))))"

text \<open>One pass of the loop \<^verbatim>\<open>for( ; isw < 2; isw++)\<close>, its increment included.\<close>

definition smrng_lp_pass :: "normal_prob \<Rightarrow> real \<Rightarrow> int \<Rightarrow> int \<Rightarrow> int \<Rightarrow> quad_state \<Rightarrow> quad_state" where
  "smrng_lp_pass nrml_p q k df nrng st =
     (let cntr = 0.5 * (qs_sl st + qs_su st);
          wdth = 0.5 * (qs_su st - qs_sl st);
          p1 = fold (\<lambda>i p1. p1 + smrng_wt ! i *
                       (smrng_f nrml_p (cntr - wdth * smrng_nd ! i) k df nrng q (qs_isw st)
                        + smrng_f nrml_p (cntr + wdth * smrng_nd ! i) k df nrng q (qs_isw st)))
                 [0..<20] 0.0;
          st1 = st\<lparr>qs_p := qs_p st + wdth * p1\<rparr>;
          st2 = (if qs_isw st = 0 then st1\<lparr>qs_su := qs_ruq st, qs_sl := qs_sll st\<rparr> else st1)
      in st2\<lparr>qs_isw := qs_isw st + 1\<rparr>)"

function smrng_lp_loop :: "normal_prob \<Rightarrow> real \<Rightarrow> int \<Rightarrow> int \<Rightarrow> int \<Rightarrow> quad_state \<Rightarrow> quad_state" where
  "smrng_lp_loop nrml_p q k df nrng st =
     (if qs_isw st < 2 then smrng_lp_loop nrml_p q k df nrng (smrng_lp_pass nrml_p q k df nrng st)
      else st)"
  by pat_completeness auto
termination
  by (relation "measure (\<lambda>(nrml_p, q, k, df, nrng, st). nat (2 - qs_isw st))")
     (auto simp: smrng_lp_pass_def Let_def)

declare smrng_lp_loop.simps [simp del]

text \<open>
  \<^verbatim>\<open>smrng_lp(q, k, df, nrng)\<close>; \<open>None\<close> is a read outside a table (or the integration up
  to an infinite limit that no \<^verbatim>\<open>df\<close> leads to).
\<close>

definition smrng_lp :: "normal_prob \<Rightarrow> real \<Rightarrow> int \<Rightarrow> int \<Rightarrow> int \<Rightarrow> real option" where
  "smrng_lp nrml_p q k df nrng =
     (if q \<le> 0.0 then Some 0.0
      else if df \<le> 0 then Some (pow (rng_lp nrml_p q k) (real_of_int nrng))
      else
        (case smrng_lp_limits q k df nrng of
           None \<Rightarrow> None
         | Some (Inl v) \<Rightarrow> Some v
         | Some (Inr st) \<Rightarrow>
             Some (coef df * qs_p (smrng_lp_loop nrml_p q k df nrng st))))"

subsection \<open>\<^verbatim>\<open>smrng_lq.c\<close>: lower quantile of the Studentised maximum range\<close>

definition YEPS :: real where
  "YEPS = 1.0 / 10 ^ 12"

text \<open>
  The local variables of \<^verbatim>\<open>smrng_lq\<close>, and the counter \<^verbatim>\<open>*itr\<close>. In C \<^verbatim>\<open>x3\<close>, \<^verbatim>\<open>y3\<close>,
  \<^verbatim>\<open>x\<close> and \<^verbatim>\<open>y\<close> are unassigned until the code writes them; the model starts them
  at 0, and the code writes each of them before it reads it.
\<close>

record lq_state =
  lq_x1 :: real
  lq_y1 :: real
  lq_x2 :: real
  lq_y2 :: real
  lq_x3 :: real
  lq_y3 :: real
  lq_x :: real
  lq_y :: real
  lq_itr :: int

text \<open>
  The probability evaluator as \<^verbatim>\<open>smrng_lq\<close> sees it: \<^verbatim>\<open>smrng_lp\<close> at fixed \<^verbatim>\<open>k\<close>,
  \<^verbatim>\<open>df\<close> and \<^verbatim>\<open>nrng\<close>, a function of the abscissa alone.
\<close>

type_synonym evaluator = "real \<Rightarrow> real option"

text \<open>
  The loop \<^verbatim>\<open>while(y2 < p)\<close>. Nothing bounds the number of its passes, so it is a
  partial function: \<open>None\<close> when the loop never ends (or when the evaluator gives
  \<open>None\<close>).
\<close>

partial_function (option) smrng_lq_while :: "evaluator \<Rightarrow> real \<Rightarrow> lq_state \<Rightarrow> lq_state option" where
  "smrng_lq_while E p st =
     (if lq_y2 st < p then
        (case E (lq_x2 st * 2.0) of
           None \<Rightarrow> None
         | Some v \<Rightarrow>
             smrng_lq_while E p
               (st\<lparr>lq_x1 := lq_x2 st, lq_y1 := lq_y2 st, lq_x2 := lq_x2 st * 2.0,
                   lq_y2 := v, lq_itr := lq_itr st + 1\<rparr>))
      else Some st)"

text \<open>
  The bracketing phase, from \<^verbatim>\<open>x1 = 0.0;\<close> to \<^verbatim>\<open>y3 = y2;\<close>: the variables on entering
  the loop \<^verbatim>\<open>for(i=1; i < 201; i++)\<close>.
\<close>

definition smrng_lq_bracket :: "evaluator \<Rightarrow> real \<Rightarrow> lq_state option" where
  "smrng_lq_bracket E p =
     (case E 2.0 of
        None \<Rightarrow> None
      | Some v \<Rightarrow>
          (case smrng_lq_while E p
                  \<lparr>lq_x1 = 0.0, lq_y1 = 0.0, lq_x2 = 2.0, lq_y2 = v, lq_x3 = 0, lq_y3 = 0,
                   lq_x = 0, lq_y = 0, lq_itr = 1\<rparr> of
             None \<Rightarrow> None
           | Some st \<Rightarrow> Some (st\<lparr>lq_x3 := lq_x2 st, lq_y3 := lq_y2 st\<rparr>)))"

text \<open>
  The root of the quadratic interpolation (the \<^verbatim>\<open>else\<close> branch of the pass, up to the
  test \<^verbatim>\<open>if(x < x1 || x > x2)\<close>).
\<close>

definition smrng_lq_quad :: "real \<Rightarrow> real \<Rightarrow> lq_state \<Rightarrow> real" where
  "smrng_lq_quad p xeps st =
     (let x1 = lq_x1 st; y1 = lq_y1 st; x2 = lq_x2 st; y2 = lq_y2 st;
          x3 = lq_x3 st; y3 = lq_y3 st;
          a = (if \<bar>x1 - x3\<bar> < xeps \<or> \<bar>x2 - x3\<bar> < xeps then 0.0
               else ((y3 - y1) / (x3 - x1) - (y2 - y1) / (x2 - x1)) / (x3 - x2));
          b = (y2 - y1) / (x2 - x1) - a * (x2 - x1)
      in if a > 0.0
         then x1 + (- b + sqrt (b * b + 4.0 * a * (p - y1))) / (2.0 * a)
         else x1 + 2.0 * (p - y1) / (b + sqrt (b * b + 4.0 * a * (p - y1))))"

text \<open>The trial point \<^verbatim>\<open>x\<close> of pass \<^verbatim>\<open>i\<close>: bisection or quadratic interpolation.\<close>

definition smrng_lq_trial :: "real \<Rightarrow> real \<Rightarrow> int \<Rightarrow> lq_state \<Rightarrow> real" where
  "smrng_lq_trial p xeps i st =
     (if c_rem i 2 = 1 \<or> \<bar>lq_y2 st - lq_y1 st\<bar> < YEPS then 0.5 * (lq_x1 st + lq_x2 st)
      else
        (let x = smrng_lq_quad p xeps st
         in if x < lq_x1 st \<or> x > lq_x2 st then 0.5 * (lq_x1 st + lq_x2 st) else x))"

text \<open>The trial evaluation: \<^verbatim>\<open>x\<close> is set, \<^verbatim>\<open>y = smrng_lp(x, k, df, nrng); (*itr)++;\<close>.\<close>

definition smrng_lq_eval :: "evaluator \<Rightarrow> real \<Rightarrow> real \<Rightarrow> int \<Rightarrow> lq_state \<Rightarrow> lq_state option" where
  "smrng_lq_eval E p xeps i st =
     (let x = smrng_lq_trial p xeps i st
      in case E x of
           None \<Rightarrow> None
         | Some v \<Rightarrow> Some (st\<lparr>lq_x := x, lq_y := v, lq_itr := lq_itr st + 1\<rparr>))"

text \<open>The test before \<^verbatim>\<open>break\<close>.\<close>

definition smrng_lq_done :: "real \<Rightarrow> real \<Rightarrow> real \<Rightarrow> lq_state \<Rightarrow> bool" where
  "smrng_lq_done p xeps peps st =
     (\<bar>lq_x2 st - lq_x1 st\<bar> < xeps \<and> \<bar>lq_y st - p\<bar> < peps)"

text \<open>The update of the bracket, \<^verbatim>\<open>if(y >= p) { ... } else { ... }\<close>.\<close>

definition smrng_lq_update :: "real \<Rightarrow> lq_state \<Rightarrow> lq_state" where
  "smrng_lq_update p st =
     (if lq_y st \<ge> p
      then st\<lparr>lq_x3 := lq_x2 st, lq_y3 := lq_y2 st, lq_x2 := lq_x st, lq_y2 := lq_y st\<rparr>
      else st\<lparr>lq_x3 := lq_x1 st, lq_y3 := lq_y1 st, lq_x1 := lq_x st, lq_y1 := lq_y st\<rparr>)"

text \<open>The loop \<^verbatim>\<open>for(i=1; i < 201; i++)\<close>, from pass \<open>i\<close> on.\<close>

function smrng_lq_for :: "evaluator \<Rightarrow> real \<Rightarrow> real \<Rightarrow> real \<Rightarrow> int \<Rightarrow> lq_state \<Rightarrow> lq_state option" where
  "smrng_lq_for E p xeps peps i st =
     (if i < 201 then
        (case smrng_lq_eval E p xeps i st of
           None \<Rightarrow> None
         | Some st1 \<Rightarrow>
             if smrng_lq_done p xeps peps st1 then Some st1
             else smrng_lq_for E p xeps peps (i + 1) (smrng_lq_update p st1))
      else Some st)"
  by pat_completeness auto
termination
  by (relation "measure (\<lambda>(E, p, xeps, peps, i, st). nat (201 - i))") auto

declare smrng_lq_for.simps [simp del]

text \<open>
  \<^verbatim>\<open>smrng_lq(p, k, df, nrng, xeps, peps, itr)\<close>: the value returned and the value left
  in \<^verbatim>\<open>*itr\<close>; \<open>None\<close> when the bracketing loop never ends.
\<close>

definition smrng_lq :: "normal_prob \<Rightarrow> real \<Rightarrow> int \<Rightarrow> int \<Rightarrow> int \<Rightarrow> real \<Rightarrow> real \<Rightarrow> (real \<times> int) option" where
  "smrng_lq nrml_p p k df nrng xeps peps =
     (if p \<le> 0.0 then Some (0.0, 0)
      else if p \<ge> 1.0 then Some (1.0 * 10 ^ 99, 0)
      else
        (let E = (\<lambda>x. smrng_lp nrml_p x k df nrng)
         in case smrng_lq_bracket E p of
              None \<Rightarrow> None
            | Some st0 \<Rightarrow>
                (case smrng_lq_for E p xeps peps 1 st0 of
                   None \<Rightarrow> None
                 | Some st \<Rightarrow> Some (lq_x st, lq_itr st))))"

section \<open>Notions the properties are stated with\<close>

subsection \<open>Quadrature and the chi density\<close>

text \<open>
  The symmetric Gauss-Legendre rule on \<open>[a, b]\<close> with the node and weight pairs
  \<open>nd\<close> and \<open>wt\<close>: centred at the midpoint, each node used at both signs.
\<close>

definition gauss_legendre :: "real list \<Rightarrow> real list \<Rightarrow> (real \<Rightarrow> real) \<Rightarrow> real \<Rightarrow> real \<Rightarrow> real" where
  "gauss_legendre nd wt g a b =
     (let cntr = (a + b) / 2; wdth = (b - a) / 2
      in wdth * (\<Sum>i<length nd. wt ! i * (g (cntr - wdth * nd ! i) + g (cntr + wdth * nd ! i))))"

text \<open>The density of the chi distribution without its constant.\<close>

definition chi_kernel :: "int \<Rightarrow> real \<Rightarrow> real" where
  "chi_kernel df s = exp ((real_of_int df - 1) * ln s + real_of_int df * (1 - s * s) / 2)"

subsection \<open>The normal probability\<close>

text \<open>
  Modelled from the spec: the standard normal distribution function \<open>\<Phi>\<close>, which
  \<^verbatim>\<open>nrml_p.c\<close> (not among the sources) computes. It is given by its power series
  around 0.
\<close>

definition Phi :: "real \<Rightarrow> real" where
  "Phi x =
     1 / 2 + (\<Sum>n. (- 1) ^ n * x ^ (2 * n + 1) / (2 ^ n * fact n * real (2 * n + 1)))
             / sqrt (2 * pi)"

text \<open>
  Modelled from the spec: \<^verbatim>\<open>NormalCDF(u, mode)\<close> as section 6 of the specification
  words it, for \<^verbatim>\<open>nrml_p.c\<close> (not among the sources): LOWER returns \<open>P(Z \<le> u)\<close>, UPPER
  returns \<open>P(Z > u)\<close>, CENTRAL returns \<open>P(Z \<le> u)\<close>. The modes are numbered as
  \<^verbatim>\<open>nrml_ip\<close> passes them: 0 is LOWER, 1 is UPPER, 2 is CENTRAL.
\<close>

definition NormalCDF :: normal_prob where
  "NormalCDF u mode = (if mode = 0 then Phi u else if mode = 1 then 1 - Phi u else Phi u)"

text \<open>
  A stand-in for \<^verbatim>\<open>nrml_p\<close> with values that are rational in \<open>u\<close>, used where the
  quantile solver is run at a concrete input: the lower (0), upper (1) and central (2)
  probabilities of the uniform distribution on \<open>[-2, 2]\<close>, the central one being the
  probability of \<open>(0, u)\<close>.
\<close>

definition unif_p :: normal_prob where
  "unif_p u upper =
     (let c = max (- 1 / 2) (min (1 / 2) (u / 4))
      in if upper = 0 then 1 / 2 + c else if upper = 1 then 1 / 2 - c else c)"

subsection \<open>The states of the quantile solver\<close>

text \<open>
  What holds of the variables when the loop \<^verbatim>\<open>while(y2 < p)\<close> is entered at \<open>st\<close>, and
  what holds of them when it is left at \<open>st'\<close>: \<open>n\<close> counts the doublings.
\<close>

definition while_pre :: "evaluator \<Rightarrow> real \<Rightarrow> lq_state \<Rightarrow> bool" where
  "while_pre E p st =
     (lq_x1 st < lq_x2 st \<and> 0 < lq_x2 st \<and> lq_y1 st < p \<and>
      E (lq_x1 st) = Some (lq_y1 st) \<and> E (lq_x2 st) = Some (lq_y2 st))"

definition while_post :: "evaluator \<Rightarrow> real \<Rightarrow> lq_state \<Rightarrow> lq_state \<Rightarrow> bool" where
  "while_post E p st st' =
     (lq_x1 st' < lq_x2 st' \<and> lq_y1 st' < p \<and> p \<le> lq_y2 st' \<and>
      E (lq_x1 st') = Some (lq_y1 st') \<and> E (lq_x2 st') = Some (lq_y2 st') \<and>
      (\<exists>n. lq_x2 st' = lq_x2 st * 2 ^ n \<and> lq_itr st' = lq_itr st + int n \<and>
           (\<forall>m<n. \<exists>v. E (lq_x2 st * 2 ^ m) = Some v \<and> v < p) \<and>
           (if n = 0 then st' = st else lq_x2 st' = 2 * lq_x1 st')))"

text \<open>The bracket invariant that the comment at the head of the bracketing phase states.\<close>

definition bracket_inv :: "evaluator \<Rightarrow> real \<Rightarrow> lq_state \<Rightarrow> bool" where
  "bracket_inv E p st =
     (lq_x1 st < lq_x2 st \<and> lq_y1 st < p \<and> p \<le> lq_y2 st \<and>
      E (lq_x1 st) = Some (lq_y1 st) \<and> E (lq_x2 st) = Some (lq_y2 st))"

text \<open>
  The variables of \<^verbatim>\<open>smrng_lq\<close> on entering pass \<open>n + 1\<close> of the loop
  \<^verbatim>\<open>for(i=1; i < 201; i++)\<close> that started from \<open>st0\<close>; \<open>None\<close> when the loop has left
  through \<^verbatim>\<open>break\<close> in an earlier pass.
\<close>

primrec smrng_lq_head :: "evaluator \<Rightarrow> real \<Rightarrow> real \<Rightarrow> real \<Rightarrow> lq_state \<Rightarrow> nat \<Rightarrow> lq_state option" where
  "smrng_lq_head E p xeps peps st0 0 = Some st0"
| "smrng_lq_head E p xeps peps st0 (Suc n) =
     (case smrng_lq_head E p xeps peps st0 n of
        None \<Rightarrow> None
      | Some st \<Rightarrow>
          (case smrng_lq_eval E p xeps (int n + 1) st of
             None \<Rightarrow> None
           | Some st1 \<Rightarrow>
               if smrng_lq_done p xeps peps st1 then None
               else Some (smrng_lq_update p st1)))"

text \<open>
  The variables of \<^verbatim>\<open>smrng_lq\<close> on entering pass \<open>n + 1\<close> when each of the \<open>n\<close> passes
  before it has run to its end, the trial evaluation followed by the update of the
  bracket. The test before \<^verbatim>\<open>break\<close> is no part of it.
\<close>

primrec smrng_lq_passes :: "evaluator \<Rightarrow> real \<Rightarrow> real \<Rightarrow> lq_state \<Rightarrow> nat \<Rightarrow> lq_state option" where
  "smrng_lq_passes E p xeps st0 0 = Some st0"
| "smrng_lq_passes E p xeps st0 (Suc n) =
     (case smrng_lq_passes E p xeps st0 n of
        None \<Rightarrow> None
      | Some st \<Rightarrow>
          (case smrng_lq_eval E p xeps (int n + 1) st of
             None \<Rightarrow> None
           | Some st1 \<Rightarrow> Some (smrng_lq_update p st1)))"

text \<open>
  The two ways the loop ends at \<open>stf\<close>: through \<^verbatim>\<open>break\<close> in pass \<open>n + 1\<close>, the first pass
  whose trial passes the test, or after pass 200 with no trial having passed it.
\<close>

definition exit_early :: "evaluator \<Rightarrow> real \<Rightarrow> real \<Rightarrow> real \<Rightarrow> lq_state \<Rightarrow> lq_state \<Rightarrow> bool" where
  "exit_early E p xeps peps st0 stf =
     (\<exists>n<200. \<exists>st. smrng_lq_head E p xeps peps st0 n = Some st \<and>
        smrng_lq_eval E p xeps (int n + 1) st = Some stf \<and> smrng_lq_done p xeps peps stf \<and>
        lq_x stf = smrng_lq_trial p xeps (int n + 1) st \<and>
        lq_itr stf = lq_itr st0 + int n + 1)"

definition exit_cap :: "evaluator \<Rightarrow> real \<Rightarrow> real \<Rightarrow> real \<Rightarrow> lq_state \<Rightarrow> lq_state \<Rightarrow> bool" where
  "exit_cap E p xeps peps st0 stf =
     (smrng_lq_head E p xeps peps st0 200 = Some stf \<and>
      lq_itr stf = lq_itr st0 + 200 \<and>
      (\<exists>st. smrng_lq_head E p xeps peps st0 199 = Some st \<and>
            lq_x stf = smrng_lq_trial p xeps 200 st))"

section \<open>Properties\<close>

subsection \<open>Loops as sums, and the power function\<close>

lemma fold_add_sum: "fold (\<lambda>i p. p + h i) [0..<n] (a::real) = a + (\<Sum>i<n. h i)"
  by (induction n) simp_all

lemma gauss_legendre_cong:
  "(\<And>x. g x = h x) \<Longrightarrow> gauss_legendre nd wt g a b = gauss_legendre nd wt h a b"
  by (simp add: gauss_legendre_def)

lemma pow_of_int: "0 \<le> n \<Longrightarrow> pow z (real_of_int n) = z ^ nat n"
  by (simp add: pow_def power_int_def)

lemma pow_1: "pow z 1 = z"
  by (simp add: pow_def)

lemma pow_nonneg: "0 \<le> x \<Longrightarrow> 0 \<le> pow x y"
  by (simp add: pow_def)

lemma pow_unit: "0 \<le> x \<Longrightarrow> x \<le> 1 \<Longrightarrow> 0 < y \<Longrightarrow> pow x y \<le> 1"
  by (auto simp: pow_def power_int_def power_le_one powr_le1)

subsection \<open>The range probability\<close>

lemma length_rng_nd: "length rng_nd = 10"
  by (simp add: rng_nd_def)

lemma rng_f_eq:
  assumes "1 \<le> k"
  shows "rng_f N x r k = exp (- (x * x) / 2) * nrml_ip N (x - r) x ^ nat (k - 1)"
proof -
  have "0 \<le> k - 1" using assms by simp
  then have "pow (nrml_ip N (x - r) x) (real_of_int (k - 1)) = nrml_ip N (x - r) x ^ nat (k - 1)"
    by (rule pow_of_int)
  moreover have "- 0.5 * x * x = - (x * x) / 2" by simp
  ultimately show ?thesis unfolding rng_f_def by (simp only:)
qed

lemma rng_lp_quadrature:
  "fold (\<lambda>ix p. p + rng_wt ! ix *
           (g (0.5 * (b + a) - 0.5 * (b - a) * rng_nd ! ix)
            + g (0.5 * (b + a) + 0.5 * (b - a) * rng_nd ! ix))) [0..<10] 0
     * (2 * c * (0.5 * (b - a)) * CNST0)
   = 2 * c * CNST0 * gauss_legendre rng_nd rng_wt g a b"
proof -
  have cn: "0.5 * (b + a) = (a + b) / 2" and wd: "0.5 * (b - a) = (b - a) / 2"
    by simp_all
  show ?thesis
    unfolding cn wd fold_add_sum gauss_legendre_def Let_def length_rng_nd
    by simp
qed

lemma nrml_ip_contract: "a < b \<Longrightarrow> nrml_ip NormalCDF a b = Phi b - Phi a"
  by (simp add: nrml_ip_def NormalCDF_def)

lemma rng_lp_general:
  assumes "0 < r" and "3 \<le> k"
  shows "rng_lp N r k =
           (2 * N (r / 2) 2) ^ nat k
           + (if r / 2 < ulim r k
              then 2 * real_of_int k * CNST0 *
                   gauss_legendre rng_nd rng_wt
                     (\<lambda>x. exp (- (x * x) / 2) * nrml_ip N (x - r) x ^ nat (k - 1))
                     (r / 2) (ulim r k)
              else 0)"
proof -
  have k: "k \<noteq> 2" "0 \<le> k" "1 \<le> k" using assms(2) by simp_all
  have f: "rng_f N x r k = exp (- (x * x) / 2) * nrml_ip N (x - r) x ^ nat (k - 1)" for x
    by (rule rng_f_eq[OF k(3)])
  have g: "gauss_legendre rng_nd rng_wt (\<lambda>x. rng_f N x r k) a b =
        gauss_legendre rng_nd rng_wt
          (\<lambda>x. exp (- (x * x) / 2) * nrml_ip N (x - r) x ^ nat (k - 1)) a b" for a b
    by (rule gauss_legendre_cong) (rule f)
  have "rng_lp N r k =
      (if r / 2 < ulim r k
       then 2 * real_of_int k * CNST0 *
            gauss_legendre rng_nd rng_wt (\<lambda>x. rng_f N x r k) (r / 2) (ulim r k)
       else 0)
      + pow (2 * N (r / 2) 2) (real_of_int k)"
    using assms(1) k(1)
    unfolding rng_lp_def Let_def
      rng_lp_quadrature[of "\<lambda>x. rng_f N x r k" "ulim r k" "0.5 * r" "real_of_int k"]
    by simp
  then show ?thesis
    unfolding g pow_of_int[OF k(2)] by simp
qed

text \<open>
  Claim C2, as amended. For \<open>r > 0\<close> and \<open>k \<ge> 3\<close>, \<^verbatim>\<open>rng_lp(r, k)\<close> is the first term
  \<open>(2 nrml_p(r/2, 2))\<^sup>k\<close>, the \<open>k\<close>-th power of twice the central probability, plus, only
  when \<^verbatim>\<open>ulim(r, k)\<close> exceeds \<open>r/2\<close>, the correction \<open>2 k CNST0\<close> times the 20-node
  Gauss-Legendre rule over \<open>[r/2, ulim(r, k)]\<close> applied to
  \<open>exp(-x\<^sup>2/2) nrml_ip(x - r, x)\<^sup>k\<^sup>-\<^sup>1\<close>; when \<^verbatim>\<open>ulim(r, k)\<close> is at most \<open>r/2\<close> the result is
  the first term alone. With the normal probability of section 6, \<^verbatim>\<open>nrml_ip(a, b)\<close> is
  \<open>\<Phi>(b) - \<Phi>(a)\<close> for \<open>a < b\<close>.
\<close>

theorem rng_lp_hartley:
  assumes "0 < r" and "3 \<le> k"
  shows "rng_lp N r k =
           (2 * N (r / 2) 2) ^ nat k
           + (if r / 2 < ulim r k
              then 2 * real_of_int k * CNST0 *
                   gauss_legendre rng_nd rng_wt
                     (\<lambda>x. exp (- (x * x) / 2) * nrml_ip N (x - r) x ^ nat (k - 1))
                     (r / 2) (ulim r k)
              else 0) \<and>
         (ulim r k \<le> r / 2 \<longrightarrow> rng_lp N r k = (2 * N (r / 2) 2) ^ nat k) \<and>
         (\<forall>a b. a < b \<longrightarrow> nrml_ip NormalCDF a b = Phi b - Phi a)"
  using rng_lp_general[OF assms, of N] nrml_ip_contract by simp

text \<open>The theorem at \<open>r = 2\<close>, \<open>k = 3\<close>, with the normal probability of section 6.\<close>

theorem rng_lp_hartley_witness:
  "(0::real) < 2 \<and> (3::int) \<le> 3 \<and>
   rng_lp NormalCDF 2 3 =
           (2 * NormalCDF (2 / 2) 2) ^ nat 3
           + (if 2 / 2 < ulim 2 3
              then 2 * real_of_int 3 * CNST0 *
                   gauss_legendre rng_nd rng_wt
                     (\<lambda>x. exp (- (x * x) / 2) * nrml_ip NormalCDF (x - 2) x ^ nat (3 - 1))
                     (2 / 2) (ulim 2 3)
              else 0)"
proof -
  have a: "(0::real) < 2" and b: "(3::int) \<le> 3" by simp_all
  from rng_lp_hartley[OF a b, of NormalCDF] a b show ?thesis by blast
qed

lemma Phi_1_ge: "1 / 2 \<le> Phi 1"
proof -
  define a :: "nat \<Rightarrow> real" where "a n = 1 / (2 ^ n * fact n * real (2 * n + 1))" for n
  have pos: "0 \<le> a n" for n by (simp add: a_def)
  have mono: "a (Suc n) \<le> a n" for n
  proof -
    have "(2::real) ^ n * fact n * real (2 * n + 1) \<le> 2 ^ Suc n * fact (Suc n) * real (2 * Suc n + 1)"
      by (intro mult_mono) (simp_all add: fact_mono)
    moreover have "(0::real) < 2 ^ n * fact n * real (2 * n + 1)" by simp
    ultimately show ?thesis unfolding a_def by (intro divide_left_mono) simp_all
  qed
  have le: "a n \<le> inverse (real (Suc n))" for n
  proof -
    have "(1::real) \<le> 2 ^ n * fact n"
      using fact_ge_1[of n, where 'a = real] one_le_power[of "2::real" n]
      by (metis mult_mono' mult_1 one_le_numeral zero_le_one)
    then have "1 * real (Suc n) \<le> 2 ^ n * fact n * real (2 * n + 1)"
      by (intro mult_mono) simp_all
    then show ?thesis unfolding a_def by (simp add: field_simps)
  qed
  have lim: "a \<longlonglongrightarrow> 0"
  proof (rule real_tendsto_sandwich[where f = "\<lambda>n. 0" and h = "\<lambda>n. inverse (real (Suc n))"])
    show "\<forall>\<^sub>F n in sequentially. 0 \<le> a n" using pos by simp
    show "\<forall>\<^sub>F n in sequentially. a n \<le> inverse (real (Suc n))" using le by simp
    show "(\<lambda>n. 0::real) \<longlonglongrightarrow> 0" by simp
    show "(\<lambda>n. inverse (real (Suc n))) \<longlonglongrightarrow> 0" by (rule LIMSEQ_inverse_real_of_nat)
  qed
  have "(\<Sum>i<2 * 0. (- 1) ^ i * a i) \<le> (\<Sum>i. (- 1) ^ i * a i)"
    by (rule summable_Leibniz'(2)[OF lim pos mono])
  then have s: "0 \<le> (\<Sum>i. (- 1) ^ i * a i)" by simp
  have "(\<Sum>n. (- 1) ^ n * (1::real) ^ (2 * n + 1) / (2 ^ n * fact n * real (2 * n + 1)))
        = (\<Sum>i. (- 1) ^ i * a i)"
    by (simp add: a_def)
  with s have "0 \<le> (\<Sum>n. (- 1) ^ n * (1::real) ^ (2 * n + 1) / (2 ^ n * fact n * real (2 * n + 1)))"
    by simp
  then have "0 \<le> (\<Sum>n. (- 1) ^ n * (1::real) ^ (2 * n + 1) / (2 ^ n * fact n * real (2 * n + 1))) / sqrt (2 * pi)"
    by (intro divide_nonneg_nonneg) simp_all
  then show ?thesis unfolding Phi_def by linarith
qed

text \<open>
  The first term is not \<open>2 \<Phi>(r/2)\<^sup>k\<close>: at \<open>r = 2\<close>, \<open>k = 3\<close>, with the normal probability
  of section 6, the code adds \<open>(2 \<Phi>(1))\<^sup>3\<close> to the correction term, and that is not
  \<open>2 \<Phi>(1)\<^sup>3\<close>.
\<close>

theorem rng_lp_first_term_differs:
  "rng_lp NormalCDF 2 3 =
           (2 * Phi 1) ^ 3
           + (if 1 < ulim 2 3
              then 2 * 3 * CNST0 *
                   gauss_legendre rng_nd rng_wt
                     (\<lambda>x. exp (- (x * x) / 2) * nrml_ip NormalCDF (x - 2) x ^ 2)
                     1 (ulim 2 3)
              else 0) \<and>
   (2 * Phi 1) ^ 3 \<noteq> 2 * Phi 1 ^ 3"
proof -
  have a: "(0::real) < 2" and b: "(3::int) \<le> 3" by simp_all
  have n: "nat 3 = 3" "nat (3 - 1) = 2" by simp_all
  have "rng_lp NormalCDF 2 3 =
           (2 * Phi 1) ^ 3
           + (if 1 < ulim 2 3
              then 2 * 3 * CNST0 *
                   gauss_legendre rng_nd rng_wt
                     (\<lambda>x. exp (- (x * x) / 2) * nrml_ip NormalCDF (x - 2) x ^ 2)
                     1 (ulim 2 3)
              else 0)"
    using rng_lp_general[OF a b, of NormalCDF] unfolding n
    by (simp add: NormalCDF_def)
  moreover have "(2 * Phi 1) ^ 3 \<noteq> 2 * Phi 1 ^ 3"
  proof
    assume "(2 * Phi 1) ^ 3 = 2 * Phi 1 ^ 3"
    then have "6 * Phi 1 ^ 3 = 0" by (simp add: power_mult_distrib)
    then have "Phi 1 = 0" by simp
    with Phi_1_ge show False by simp
  qed
  ultimately show ?thesis by blast
qed

text \<open>
  Claim C3, as amended. For \<open>r > 0\<close>, \<^verbatim>\<open>rng_lp(r, 2)\<close> is \<open>2 nrml_p(r/\<surd>2, 2)\<close>, one call of
  the central mode. It is \<open>2 \<Phi>(r/\<surd>2) - 1\<close> exactly when the central mode returns
  \<open>\<Phi>(u) - 1/2\<close> at \<open>u = r/\<surd>2\<close>; with a central mode that returns \<open>P(Z \<le> u) = \<Phi>(u)\<close>, as
  section 6 has it, the value is \<open>2 \<Phi>(r/\<surd>2)\<close>.
\<close>

theorem rng_lp_two_treatments:
  assumes "0 < r"
  shows "rng_lp N r 2 = 2 * N (r / sqrt 2) 2 \<and>
         (rng_lp N r 2 = 2 * Phi (r / sqrt 2) - 1) = (N (r / sqrt 2) 2 = Phi (r / sqrt 2) - 1 / 2) \<and>
         rng_lp NormalCDF r 2 = 2 * Phi (r / sqrt 2)"
  using assms by (auto simp: rng_lp_def NormalCDF_def)

text \<open>The theorem at \<open>r = 1\<close>, with the normal probability of section 6.\<close>

theorem rng_lp_two_treatments_witness:
  "(0::real) < 1 \<and> rng_lp NormalCDF 1 2 = 2 * NormalCDF (1 / sqrt 2) 2 \<and>
   rng_lp NormalCDF 1 2 = 2 * Phi (1 / sqrt 2)"
proof -
  have a: "(0::real) < 1" by simp
  from rng_lp_two_treatments[OF a, of NormalCDF] a show ?thesis by blast
qed

text \<open>
  With the central mode of section 6, \<^verbatim>\<open>rng_lp(1, 2)\<close> is 1 more than \<open>2 \<Phi>(1/\<surd>2) - 1\<close>, not
  within \<open>10\<^sup>-\<^sup>1\<^sup>2\<close> of it.
\<close>

theorem rng_lp_two_treatments_off_by_one:
  "rng_lp NormalCDF 1 2 - (2 * Phi (1 / sqrt 2) - 1) = 1 \<and>
   \<not> \<bar>rng_lp NormalCDF 1 2 - (2 * Phi (1 / sqrt 2) - 1)\<bar> < 1 / 10 ^ 12"
  by (simp add: rng_lp_def NormalCDF_def)

subsection \<open>The probability of the Studentised maximum range\<close>

lemma length_smrng_nd: "length smrng_nd = 20"
  by (simp add: smrng_nd_def)

lemma chi2u_None: "(chi2u df = None) = (df \<le> 0)"
  by (auto simp: chi2u_def read_first_def Let_def)

lemma chi2l_None: "(chi2l df = None) = (df \<le> 0)"
  by (auto simp: chi2l_def read_first_def Let_def)

text \<open>
  The product \<^verbatim>\<open>df*df\<close>: exact while it fits in 32 bits, wrapped from \<open>df = 46341\<close> on, and
  0 at \<open>df = 65536\<close>, where both cutoffs are infinite and \<^verbatim>\<open>smrng_lp\<close> returns 1 through
  \<^verbatim>\<open>if(ruq <= sl)\<close>, with no integration.
\<close>

lemma c_int_mul_exact:
  "- (2 ^ 31) \<le> a * b \<Longrightarrow> a * b < 2 ^ 31 \<Longrightarrow> c_int_mul a b = a * b"
  by (simp add: c_int_mul_def)

lemma c_int_mul_square: "\<bar>df\<bar> \<le> 46340 \<Longrightarrow> c_int_mul df df = df * df"
proof (rule c_int_mul_exact)
  assume a: "\<bar>df\<bar> \<le> 46340"
  have "df * df = \<bar>df\<bar> * \<bar>df\<bar>" by simp
  also have "\<dots> \<le> 46340 * 46340" using a by (intro mult_mono) simp_all
  finally show "df * df < 2 ^ 31" by simp
  have "(0::int) \<le> df * df" by simp
  moreover have "- (2 ^ 31) \<le> (0::int)" by simp
  ultimately show "- (2 ^ 31) \<le> df * df" by (rule order_trans[rotated])
qed

lemma c_int_mul_wraps:
  "c_int_mul 46341 46341 = - 2147479015 \<and> c_int_mul 65536 65536 = 0"
  by (simp add: c_int_mul_def)

lemma chi2_infinite:
  "(chi2u df = Some PlusInfinity) = (5 < df \<and> c_int_mul df df = 0) \<and>
   (chi2l df = Some PlusInfinity) = (5 < df \<and> c_int_mul df df = 0)"
  by (auto simp: chi2u_def chi2l_def read_first_def Let_def)

lemma limits_infinite:
  assumes "5 < df" and "c_int_mul df df = 0"
  shows "smrng_lp_limits q k df nrng = Some (Inl 1)"
proof -
  have "chi2u df = Some PlusInfinity" and "chi2l df = Some PlusInfinity"
    using assms chi2_infinite[of df] by simp_all
  then show ?thesis
    by (simp add: smrng_lp_limits_def cutoff_scale_def)
qed

lemma smrng_lp_infinite_cutoffs:
  assumes "0 < q"
  shows "chi2l 65536 = Some PlusInfinity \<and> chi2u 65536 = Some PlusInfinity \<and>
         smrng_lp N q k 65536 nrng = Some 1"
proof -
  have z: "c_int_mul 65536 65536 = 0" using c_int_mul_wraps by blast
  have "smrng_lp_limits q k 65536 nrng = Some (Inl 1)"
    by (rule limits_infinite) (simp_all add: z)
  then have "smrng_lp N q k 65536 nrng = Some 1"
    using assms by (simp add: smrng_lp_def)
  then show ?thesis
    using chi2_infinite[of 65536] z by simp
qed

lemma limits_Some: "0 < df \<Longrightarrow> smrng_lp_limits q k df nrng \<noteq> None"
proof (cases "5 < df \<and> c_int_mul df df = 0")
  case True
  then show ?thesis by (simp add: limits_infinite)
next
  case False
  assume "0 < df"
  then obtain cl cu where "chi2l df = Some cl" and "chi2u df = Some cu"
    using chi2u_None[of df] chi2l_None[of df] by auto
  moreover from this obtain xl xu where "cl = Finite xl" and "cu = Finite xu"
    using False chi2_infinite[of df] by (cases cl; cases cu) auto
  ultimately show ?thesis
    by (simp add: smrng_lp_limits_def cutoff_scale_def Let_def)
qed

lemma smrng_lp_Some: "smrng_lp N q k df nrng \<noteq> None"
  using limits_Some[of df q k nrng]
  by (auto simp: smrng_lp_def split: option.splits sum.splits)

lemma smrng_lp_0: "smrng_lp N 0 k df nrng = Some 0"
  by (simp add: smrng_lp_def)

text \<open>
  Claim C10. \<open>chi2u\<close> and \<open>chi2l\<close> read their tables at \<^verbatim>\<open>df-1\<close> only under \<^verbatim>\<open>df <= 5\<close>, and
  the read is outside the table exactly when \<open>df \<le> 0\<close>; \<^verbatim>\<open>smrng_lp\<close> calls them only after
  its return for \<open>df \<le> 0\<close>, so no call of \<^verbatim>\<open>smrng_lp\<close> reads outside a table.
\<close>

theorem chi2_table_reads_in_bounds:
  "(chi2u df = None) = (df \<le> 0) \<and> (chi2l df = None) = (df \<le> 0) \<and>
   (read_first first (df - 1) = None) = (df \<le> 0 \<or> int (length first) < df) \<and>
   smrng_lp N q k df nrng \<noteq> None"
  by (auto simp: chi2u_None chi2l_None smrng_lp_Some read_first_def)

text \<open>
  Claim C4. For \<open>df \<le> 0\<close> and \<open>nrng \<ge> 1\<close>, \<^verbatim>\<open>smrng_lp(q, k, df, nrng)\<close> is
  \<^verbatim>\<open>pow(rng_lp(q, k), nrng)\<close>, the \<open>nrng\<close>-th power of \<^verbatim>\<open>rng_lp(q, k)\<close>, for every \<open>q\<close> and
  \<open>k\<close>, with no integration; for \<open>q \<le> 0\<close> it is 0.
\<close>

theorem smrng_lp_df_infinite:
  assumes "df \<le> 0" and "1 \<le> nrng"
  shows "smrng_lp N q k df nrng = Some (pow (rng_lp N q k) (real_of_int nrng)) \<and>
         pow (rng_lp N q k) (real_of_int nrng) = rng_lp N q k ^ nat nrng \<and>
         (q \<le> 0 \<longrightarrow> smrng_lp N q k df nrng = Some 0)"
proof -
  have p: "pow x (real_of_int nrng) = x ^ nat nrng" for x
    using assms(2) by (simp add: pow_def power_int_def)
  have z: "rng_lp N q k = 0" if "q \<le> 0"
    using that by (simp add: rng_lp_def)
  have n: "nat nrng \<noteq> 0" using assms(2) by simp
  show ?thesis
    using assms(1) n by (auto simp: smrng_lp_def p z)
qed

text \<open>The theorem at \<open>df = 0\<close>, \<open>nrng = 1\<close>, \<open>k = 2\<close>, for \<open>q = 2\<close> and for \<open>q = -1\<close>.\<close>

theorem smrng_lp_df_infinite_witness:
  "(0::int) \<le> 0 \<and> (1::int) \<le> 1 \<and>
   smrng_lp unif_p 2 2 0 1 = Some (pow (rng_lp unif_p 2 2) (real_of_int 1)) \<and>
   pow (rng_lp unif_p 2 2) (real_of_int 1) = rng_lp unif_p 2 2 ^ nat 1 \<and>
   smrng_lp unif_p (- 1) 2 0 1 = Some 0"
proof -
  have a: "(0::int) \<le> 0" and b: "(1::int) \<le> 1" by simp_all
  from smrng_lp_df_infinite[OF a b, of unif_p 2 2] smrng_lp_df_infinite[OF a b, of unif_p "- 1" 2]
  show ?thesis by (simp add: rng_lp_def)
qed

lemma pass_p:
  "qs_p (smrng_lp_pass N q k df nrng st) =
     qs_p st + gauss_legendre smrng_nd smrng_wt (\<lambda>s. smrng_f N s k df nrng q (qs_isw st)) (qs_sl st) (qs_su st)"
  by (simp add: smrng_lp_pass_def Let_def fold_add_sum gauss_legendre_def length_smrng_nd)

lemma pass_isw: "qs_isw (smrng_lp_pass N q k df nrng st) = qs_isw st + 1"
  by (simp add: smrng_lp_pass_def Let_def)

lemma pass_limits0:
  "qs_isw st = 0 \<Longrightarrow> qs_sl (smrng_lp_pass N q k df nrng st) = qs_sll st \<and>
     qs_su (smrng_lp_pass N q k df nrng st) = qs_ruq st"
  by (simp add: smrng_lp_pass_def Let_def)

lemma loop_from_1:
  "qs_isw st = 1 \<Longrightarrow> smrng_lp_loop N q k df nrng st = smrng_lp_pass N q k df nrng st"
  by (subst smrng_lp_loop.simps, subst smrng_lp_loop.simps) (simp add: pass_isw)

lemma loop_from_0:
  "qs_isw st = 0 \<Longrightarrow> smrng_lp_loop N q k df nrng st =
     smrng_lp_pass N q k df nrng (smrng_lp_pass N q k df nrng st)"
  by (subst smrng_lp_loop.simps) (simp add: loop_from_1 pass_isw)

lemma smrng_f_0: "smrng_f N s k df nrng q 0 = chi_kernel df s"
  by (simp add: smrng_f_def chi_kernel_def)

lemma smrng_f_1:
  "smrng_f N s k df nrng q 1 = chi_kernel df s * pow (rng_lp N (s * q) k) (real_of_int nrng)"
  by (simp add: smrng_f_def chi_kernel_def)

lemma loop_p_from_0:
  assumes "qs_isw st = 0"
  shows "qs_p (smrng_lp_loop N q k df nrng st) =
     qs_p st
     + gauss_legendre smrng_nd smrng_wt (chi_kernel df) (qs_sl st) (qs_su st)
     + gauss_legendre smrng_nd smrng_wt
         (\<lambda>s. chi_kernel df s * pow (rng_lp N (s * q) k) (real_of_int nrng)) (qs_sll st) (qs_ruq st)"
  using assms pass_limits0[OF assms, of N q k df nrng]
  by (simp add: loop_from_0 pass_p pass_isw smrng_f_0 smrng_f_1)

lemma limits_split:
  assumes cl: "chi2l df = Some (Finite cl)" and cu: "chi2u df = Some (Finite cu)"
    and lo: "max (sqrt (cl / real_of_int df)) (rlower k nrng / q) < rupper k nrng / q"
    and hi: "rupper k nrng / q < sqrt (cu / real_of_int df)"
  shows "smrng_lp_limits q k df nrng =
     Some (Inr \<lparr>qs_sl = rupper k nrng / q, qs_su = sqrt (cu / real_of_int df),
                qs_sll = max (sqrt (cl / real_of_int df)) (rlower k nrng / q),
                qs_ruq = rupper k nrng / q, qs_p = 0, qs_isw = 0\<rparr>)"
proof -
  define sl su rlq ruq where "sl = sqrt (cl / real_of_int df)"
    and "su = sqrt (cu / real_of_int df)" and "rlq = rlower k nrng / q"
    and "ruq = rupper k nrng / q"
  have lo': "max sl rlq < ruq" and hi': "ruq < su"
    using lo hi by (simp_all only: sl_def su_def rlq_def ruq_def)
  have m: "(if sl < rlq then rlq else sl) = max sl rlq"
    by (cases "sl < rlq") (simp_all add: max_def)
  have a: "\<not> su \<le> rlq" and b: "\<not> ruq \<le> max sl rlq"
    using lo' hi' by linarith+
  have "smrng_lp_limits q k df nrng =
     (if su \<le> rlq then Some (Inl 0)
      else if ruq \<le> (if sl < rlq then rlq else sl) then Some (Inl 1)
      else if ruq < su
        then Some (Inr \<lparr>qs_sl = ruq, qs_su = su, qs_sll = (if sl < rlq then rlq else sl),
                        qs_ruq = ruq, qs_p = 0, qs_isw = 0\<rparr>)
        else Some (Inr \<lparr>qs_sl = (if sl < rlq then rlq else sl), qs_su = su, qs_sll = 0,
                        qs_ruq = ruq, qs_p = 0, qs_isw = 1\<rparr>))"
    unfolding smrng_lp_limits_def cl cu option.case Let_def sl_def su_def rlq_def ruq_def
      cutoff_scale_def
    by (simp add: not_le not_less)
  also have "\<dots> = Some (Inr \<lparr>qs_sl = ruq, qs_su = su, qs_sll = max sl rlq,
                qs_ruq = ruq, qs_p = 0, qs_isw = 0\<rparr>)"
    unfolding m using a b hi' by (simp only: if_False if_True)
  finally show ?thesis
    by (simp only: sl_def su_def rlq_def ruq_def)
qed

text \<open>
  Claim C1, as amended. For \<open>q > 0\<close>, \<open>k \<ge> 2\<close>, \<open>df \<ge> 1\<close> and \<open>nrng \<ge> 1\<close> such that
  \<open>ruq = rupper(k, nrng)/q\<close> lies strictly between \<open>max(sl, rlq)\<close> and \<open>su\<close>, where
  \<open>sl = sqrt(chi2l(df)/df)\<close> and \<open>su = sqrt(chi2u(df)/df)\<close> are real numbers (an infinite
  \<open>sl\<close> is not below \<open>ruq\<close>), \<^verbatim>\<open>smrng_lp\<close> is \<^verbatim>\<open>coef(df)\<close> times the sum of two 40-node
  Gauss-Legendre segments split at \<open>ruq\<close>: over the upper segment \<open>[ruq, su]\<close> the
  integrand is the chi density alone, the range-probability factor being taken as 1, and
  over the lower segment \<open>[max(sl, rlq), ruq]\<close> it is the full integrand with the factor
  \<^verbatim>\<open>pow(rng_lp(s*q, k), nrng)\<close>.
\<close>

theorem smrng_lp_two_segments:
  assumes "0 < q" and "2 \<le> k" and "1 \<le> df" and "1 \<le> nrng"
    and "chi2l df = Some (Finite cl)" and "chi2u df = Some (Finite cu)"
    and "max (sqrt (cl / real_of_int df)) (rlower k nrng / q) < rupper k nrng / q"
    and "rupper k nrng / q < sqrt (cu / real_of_int df)"
  shows "smrng_lp N q k df nrng =
     Some (coef df *
       (gauss_legendre smrng_nd smrng_wt (chi_kernel df)
          (rupper k nrng / q) (sqrt (cu / real_of_int df))
        + gauss_legendre smrng_nd smrng_wt
            (\<lambda>s. chi_kernel df s * pow (rng_lp N (s * q) k) (real_of_int nrng))
            (max (sqrt (cl / real_of_int df)) (rlower k nrng / q)) (rupper k nrng / q)))"
proof -
  have g: "\<not> q \<le> 0" "\<not> df \<le> 0" using assms(1,3) by simp_all
  show ?thesis
    unfolding smrng_lp_def limits_split[OF assms(5-8)]
    using g by (simp add: loop_p_from_0)
qed

lemma rupper_2_1: "10.465 \<le> rupper 2 1 \<and> rupper 2 1 \<le> 10.885"
proof -
  have l0: "0 \<le> ln (3 / 2 :: real)" by simp
  have l1: "ln (3 / 2 :: real) \<le> 1" using ln_le_minus_one[of "3/2::real"] by simp
  have "0 \<le> pow (ln (3 / 2)) 0.9" "pow (ln (3 / 2)) 0.9 \<le> 1"
    using pow_nonneg[OF l0] pow_unit[OF l0 l1] by simp_all
  then show ?thesis by (simp add: rupper_def)
qed

lemma exp_2_le: "exp (2::real) \<le> 9"
proof -
  have "exp (2::real) = exp 1 * exp 1" by (simp flip: exp_add)
  also have "\<dots> \<le> 3 * 3" by (intro mult_mono exp_le) simp_all
  finally show ?thesis by simp
qed

lemma rlower_2_1: "0 < rlower 2 1 \<and> rlower 2 1 \<le> 9"
proof -
  define z :: real where "z = - 27.12 / pow (ln (5 / 2)) 2.1 + 1.88"
  have r: "rlower 2 1 = exp z" by (simp add: rlower_def z_def)
  have "0 \<le> ln (5 / 2 :: real)" by simp
  then have "0 \<le> pow (ln (5 / 2)) 2.1" by (rule pow_nonneg)
  then have "z \<le> 2" by (simp add: z_def field_simps)
  then have "exp z \<le> exp 2" by simp
  then have "exp z \<le> 9" using exp_2_le by (rule order_trans)
  then show ?thesis by (simp add: r)
qed

lemma sqrt_chi2l_1: "sqrt (3.926 / 10 ^ 27) < 1"
  by simp

lemma sqrt_chi2u_1: "7 < sqrt 56.73"
  by (rule real_less_rsqrt) simp

lemma chi2l_1: "chi2l 1 = Some (Finite (3.926 / 10 ^ 27))"
  by (simp add: chi2l_def read_first_def)

lemma chi2u_1: "chi2u 1 = Some (Finite 56.73)"
  by (simp add: chi2u_def read_first_def)

lemma limits_arith:
  fixes a r u s :: real
  assumes "a < 1" "r \<le> 9" "10 \<le> u" "u \<le> 11" "7 < s"
  shows "max a (r / 2) < u / 2 \<and> u / 2 < s"
  using assms by linarith

lemma limits_input:
  "max (sqrt (3.926 / 10 ^ 27)) (rlower 2 1 / 2) < rupper 2 1 / 2 \<and>
   rupper 2 1 / 2 < sqrt 56.73"
proof (rule limits_arith)
  show "sqrt (3.926 / 10 ^ 27) < 1" by (rule sqrt_chi2l_1)
  show "rlower 2 1 \<le> 9" using rlower_2_1 by blast
  show "10 \<le> rupper 2 1" "rupper 2 1 \<le> 11" using rupper_2_1 by simp_all
  show "7 < sqrt 56.73" by (rule sqrt_chi2u_1)
qed

lemma limits_at_input:
  "smrng_lp_limits 2 2 1 1 =
     Some (Inr \<lparr>qs_sl = rupper 2 1 / 2, qs_su = sqrt 56.73,
                qs_sll = max (sqrt (3.926 / 10 ^ 27)) (rlower 2 1 / 2),
                qs_ruq = rupper 2 1 / 2, qs_p = 0, qs_isw = 0\<rparr>)"
proof -
  have h5: "max (sqrt (3.926 / 10 ^ 27 / real_of_int 1)) (rlower 2 1 / 2) < rupper 2 1 / 2"
    and h6: "rupper 2 1 / 2 < sqrt (56.73 / real_of_int 1)"
    using limits_input by (simp_all only: of_int_1 div_by_1)
  show ?thesis
    using limits_split[OF chi2l_1 chi2u_1 h5 h6] by (simp only: of_int_1 div_by_1)
qed

text \<open>The theorem at \<open>q = 2\<close>, \<open>k = 2\<close>, \<open>df = 1\<close>, \<open>nrng = 1\<close>.\<close>

theorem smrng_lp_two_segments_witness:
  "(0::real) < 2 \<and> (2::int) \<le> 2 \<and> (1::int) \<le> 1 \<and>
   chi2l 1 = Some (Finite (3.926 / 10 ^ 27)) \<and> chi2u 1 = Some (Finite 56.73) \<and>
   max (sqrt (3.926 / 10 ^ 27)) (rlower 2 1 / 2) < rupper 2 1 / 2 \<and>
   rupper 2 1 / 2 < sqrt 56.73 \<and>
   smrng_lp NormalCDF 2 2 1 1 =
     Some (coef 1 *
       (gauss_legendre smrng_nd smrng_wt (chi_kernel 1) (rupper 2 1 / 2) (sqrt 56.73)
        + gauss_legendre smrng_nd smrng_wt
            (\<lambda>s. chi_kernel 1 s * pow (rng_lp NormalCDF (s * 2) 2) 1)
            (max (sqrt (3.926 / 10 ^ 27)) (rlower 2 1 / 2)) (rupper 2 1 / 2)))"
proof -
  have h1: "(0::real) < 2" and hk: "(2::int) \<le> 2" and h2: "(1::int) \<le> 1" by simp_all
  have h5: "max (sqrt (3.926 / 10 ^ 27 / real_of_int 1)) (rlower 2 1 / 2) < rupper 2 1 / 2"
    and h6: "rupper 2 1 / 2 < sqrt (56.73 / real_of_int 1)"
    using limits_input by (simp_all only: of_int_1 div_by_1)
  have "smrng_lp NormalCDF 2 2 1 1 =
     Some (coef 1 *
       (gauss_legendre smrng_nd smrng_wt (chi_kernel 1) (rupper 2 1 / 2) (sqrt 56.73)
        + gauss_legendre smrng_nd smrng_wt
            (\<lambda>s. chi_kernel 1 s * pow (rng_lp NormalCDF (s * 2) 2) 1)
            (max (sqrt (3.926 / 10 ^ 27)) (rlower 2 1 / 2)) (rupper 2 1 / 2)))"
    using smrng_lp_two_segments[OF h1 hk h2 h2 chi2l_1 chi2u_1 h5 h6, of NormalCDF]
    by (simp only: of_int_1 div_by_1)
  then show ?thesis
    using h1 hk h2 chi2l_1 chi2u_1 limits_input by blast
qed

text \<open>
  The segment integrated with the factor taken as 1 is not the lower one. At \<open>q = 2\<close>,
  \<open>k = 2\<close>, \<open>df = 1\<close>, \<open>nrng = 1\<close>, where \<open>ruq\<close> lies strictly between \<open>max(sl, rlq)\<close> and
  \<open>su\<close>, the loop is entered with \<^verbatim>\<open>isw = 0\<close> (the chi density alone) on \<open>[ruq, su]\<close>, and its
  first pass leaves \<^verbatim>\<open>isw = 1\<close> (the full integrand) on \<open>[max(sl, rlq), ruq]\<close>: the
  segment of the chi density alone is \<open>[ruq, su]\<close>, not \<open>[max(sl, rlq), ruq]\<close>.
\<close>

theorem smrng_lp_upper_segment_first:
  "smrng_lp_limits 2 2 1 1 =
     Some (Inr \<lparr>qs_sl = rupper 2 1 / 2, qs_su = sqrt 56.73,
                qs_sll = max (sqrt (3.926 / 10 ^ 27)) (rlower 2 1 / 2),
                qs_ruq = rupper 2 1 / 2, qs_p = 0, qs_isw = 0\<rparr>) \<and>
   max (sqrt (3.926 / 10 ^ 27)) (rlower 2 1 / 2) < rupper 2 1 / 2 \<and>
   rupper 2 1 / 2 < sqrt 56.73 \<and>
   qs_isw (smrng_lp_pass NormalCDF 2 2 1 1
            \<lparr>qs_sl = rupper 2 1 / 2, qs_su = sqrt 56.73,
             qs_sll = max (sqrt (3.926 / 10 ^ 27)) (rlower 2 1 / 2),
             qs_ruq = rupper 2 1 / 2, qs_p = 0, qs_isw = 0\<rparr>) = 1 \<and>
   qs_sl (smrng_lp_pass NormalCDF 2 2 1 1
            \<lparr>qs_sl = rupper 2 1 / 2, qs_su = sqrt 56.73,
             qs_sll = max (sqrt (3.926 / 10 ^ 27)) (rlower 2 1 / 2),
             qs_ruq = rupper 2 1 / 2, qs_p = 0, qs_isw = 0\<rparr>)
     = max (sqrt (3.926 / 10 ^ 27)) (rlower 2 1 / 2) \<and>
   qs_su (smrng_lp_pass NormalCDF 2 2 1 1
            \<lparr>qs_sl = rupper 2 1 / 2, qs_su = sqrt 56.73,
             qs_sll = max (sqrt (3.926 / 10 ^ 27)) (rlower 2 1 / 2),
             qs_ruq = rupper 2 1 / 2, qs_p = 0, qs_isw = 0\<rparr>)
     = rupper 2 1 / 2 \<and>
   (rupper 2 1 / 2, sqrt 56.73) \<noteq> (max (sqrt (3.926 / 10 ^ 27)) (rlower 2 1 / 2), rupper 2 1 / 2)"
proof -
  have "rupper 2 1 / 2 \<noteq> max (sqrt (3.926 / 10 ^ 27)) (rlower 2 1 / 2)"
    using limits_input by linarith
  then show ?thesis
    using limits_at_input limits_input
    by (simp add: pass_isw pass_limits0)
qed

subsection \<open>The quantile solver: arguments out of range\<close>

text \<open>
  Claim C8. For \<open>p \<le> 0\<close> \<^verbatim>\<open>smrng_lq\<close> returns 0, and for \<open>p \<ge> 1\<close> it returns \<open>10\<^sup>9\<^sup>9\<close>; in both
  cases \<^verbatim>\<open>*itr\<close>, the number of calls of \<^verbatim>\<open>smrng_lp\<close>, is left at 0, whatever \<^verbatim>\<open>k\<close>,
  \<^verbatim>\<open>df\<close>, \<^verbatim>\<open>nrng\<close>, \<^verbatim>\<open>xeps\<close>, \<^verbatim>\<open>peps\<close> and the normal probability are.
\<close>

theorem smrng_lq_out_of_range:
  "(p \<le> 0 \<longrightarrow> smrng_lq N p k df nrng xeps peps = Some (0, 0)) \<and>
   (1 \<le> p \<longrightarrow> smrng_lq N p k df nrng xeps peps = Some (10 ^ 99, 0))"
  by (simp add: smrng_lq_def)

text \<open>The theorem at \<open>p = 0\<close> and at \<open>p = 1\<close>.\<close>

theorem smrng_lq_out_of_range_witness:
  "smrng_lq unif_p 0 2 0 1 (1 / 10 ^ 8) (1 / 10 ^ 8) = Some (0, 0) \<and>
   smrng_lq unif_p 1 2 0 1 (1 / 10 ^ 8) (1 / 10 ^ 8) = Some (10 ^ 99, 0)"
  using smrng_lq_out_of_range[of 0 unif_p 2 0 1 "1 / 10 ^ 8" "1 / 10 ^ 8"]
    smrng_lq_out_of_range[of 1 unif_p 2 0 1 "1 / 10 ^ 8" "1 / 10 ^ 8"]
  by simp

subsection \<open>The quantile solver: the bracketing phase\<close>

lemma while_post_stop:
  assumes "while_pre E p st" and "\<not> lq_y2 st < p"
  shows "while_post E p st st"
proof -
  have "lq_x2 st = lq_x2 st * 2 ^ 0 \<and> lq_itr st = lq_itr st + int 0 \<and>
           (\<forall>m<0. \<exists>v. E (lq_x2 st * 2 ^ m) = Some v \<and> v < p) \<and>
           (if (0::nat) = 0 then st = st else lq_x2 st = 2 * lq_x1 st)"
    by simp
  then have "\<exists>n. lq_x2 st = lq_x2 st * 2 ^ n \<and> lq_itr st = lq_itr st + int n \<and>
           (\<forall>m<n. \<exists>v. E (lq_x2 st * 2 ^ m) = Some v \<and> v < p) \<and>
           (if n = 0 then st = st else lq_x2 st = 2 * lq_x1 st)"
    by (rule exI)
  then show ?thesis
    using assms unfolding while_post_def while_pre_def by simp
qed

lemma while_post_step:
  assumes pre: "while_pre E p st" and lt: "lq_y2 st < p" and v: "E (lq_x2 st * 2) = Some v"
    and st2: "st2 = st\<lparr>lq_x1 := lq_x2 st, lq_y1 := lq_y2 st, lq_x2 := lq_x2 st * 2,
                    lq_y2 := v, lq_itr := lq_itr st + 1\<rparr>"
    and post: "while_post E p st2 st'"
  shows "while_post E p st st'"
proof -
  from post obtain n where n: "lq_x2 st' = lq_x2 st2 * 2 ^ n" "lq_itr st' = lq_itr st2 + int n"
      "\<forall>m<n. \<exists>v. E (lq_x2 st2 * 2 ^ m) = Some v \<and> v < p"
      "if n = 0 then st' = st2 else lq_x2 st' = 2 * lq_x1 st'"
    unfolding while_post_def by blast
  have x2: "lq_x2 st2 = lq_x2 st * 2" and x1: "lq_x1 st2 = lq_x2 st"
    and it: "lq_itr st2 = lq_itr st + 1"
    by (simp_all add: st2)
  have a: "lq_x2 st' = lq_x2 st * 2 ^ Suc n" using n(1) x2 by simp
  have b: "lq_itr st' = lq_itr st + int (Suc n)" using n(2) it by simp
  have c: "\<forall>m<Suc n. \<exists>v. E (lq_x2 st * 2 ^ m) = Some v \<and> v < p"
  proof (intro allI impI)
    fix m assume m: "m < Suc n"
    show "\<exists>v. E (lq_x2 st * 2 ^ m) = Some v \<and> v < p"
    proof (cases m)
      case 0
      then show ?thesis using pre lt by (simp add: while_pre_def)
    next
      case (Suc m')
      with m have "m' < n" by simp
      with n(3) obtain w where "E (lq_x2 st2 * 2 ^ m') = Some w" "w < p" by blast
      then show ?thesis using Suc x2 by (simp add: mult.assoc)
    qed
  qed
  have d: "lq_x2 st' = 2 * lq_x1 st'"
  proof (cases "n = 0")
    case True
    with n(4) have "st' = st2" by simp
    then show ?thesis using x1 x2 by simp
  next
    case False
    with n(4) show ?thesis by simp
  qed
  have "lq_x2 st' = lq_x2 st * 2 ^ Suc n \<and> lq_itr st' = lq_itr st + int (Suc n) \<and>
           (\<forall>m<Suc n. \<exists>v. E (lq_x2 st * 2 ^ m) = Some v \<and> v < p) \<and>
           (if Suc n = 0 then st' = st else lq_x2 st' = 2 * lq_x1 st')"
    using a b c d by simp
  then have "\<exists>n. lq_x2 st' = lq_x2 st * 2 ^ n \<and> lq_itr st' = lq_itr st + int n \<and>
           (\<forall>m<n. \<exists>v. E (lq_x2 st * 2 ^ m) = Some v \<and> v < p) \<and>
           (if n = 0 then st' = st else lq_x2 st' = 2 * lq_x1 st')"
    by (rule exI)
  then show ?thesis
    using post unfolding while_post_def by simp
qed

lemma while_pre_step:
  assumes pre: "while_pre E p st" and lt: "lq_y2 st < p" and v: "E (lq_x2 st * 2) = Some v"
  shows "while_pre E p (st\<lparr>lq_x1 := lq_x2 st, lq_y1 := lq_y2 st, lq_x2 := lq_x2 st * 2,
                    lq_y2 := v, lq_itr := lq_itr st + 1\<rparr>)"
  using assms by (simp add: while_pre_def)

lemma while_result:
  assumes run: "smrng_lq_while E p st = Some st'"
  shows "while_pre E p st \<longrightarrow> while_post E p st st'"
proof (rule smrng_lq_while.raw_induct[where P = "\<lambda>E p st st'. while_pre E p st \<longrightarrow> while_post E p st st'", OF _ run])
  fix f :: "evaluator \<Rightarrow> real \<Rightarrow> lq_state \<Rightarrow> lq_state option" and E p st st'
  assume ih: "\<And>E p st st'. f E p st = Some st' \<Longrightarrow> while_pre E p st \<longrightarrow> while_post E p st st'"
    and eq: "(if lq_y2 st < p
      then case E (lq_x2 st * 2.0) of None \<Rightarrow> None
           | Some v \<Rightarrow> f E p (st\<lparr>lq_x1 := lq_x2 st, lq_y1 := lq_y2 st,
                      lq_x2 := lq_x2 st * 2.0, lq_y2 := v, lq_itr := lq_itr st + 1\<rparr>)
      else Some st) = Some st'"
  show "while_pre E p st \<longrightarrow> while_post E p st st'"
  proof
    assume pre: "while_pre E p st"
    show "while_post E p st st'"
    proof (cases "lq_y2 st < p")
      case False
      with eq have "st' = st" by simp
      with while_post_stop[OF pre False] show ?thesis by simp
    next
      case True
      with eq obtain v where v: "E (lq_x2 st * 2) = Some v"
        by (cases "E (lq_x2 st * 2)") simp_all
      define st2 where "st2 = st\<lparr>lq_x1 := lq_x2 st, lq_y1 := lq_y2 st, lq_x2 := lq_x2 st * 2,
                    lq_y2 := v, lq_itr := lq_itr st + 1\<rparr>"
      from True eq v have r: "f E p st2 = Some st'" by (simp add: st2_def)
      have "while_pre E p st2"
        unfolding st2_def by (rule while_pre_step[OF pre True v])
      with ih[OF r] have "while_post E p st2 st'" by simp
      then show ?thesis
        by (rule while_post_step[OF pre True v st2_def])
    qed
  qed
qed

lemma while_ends:
  assumes tot: "\<And>x. E x \<noteq> None"
  shows "E (lq_x2 st) = Some (lq_y2 st) \<Longrightarrow> E (lq_x2 st * 2 ^ n) = Some v \<Longrightarrow> p \<le> v \<Longrightarrow>
         \<exists>st'. smrng_lq_while E p st = Some st'"
proof (induction n arbitrary: st)
  case 0
  then have "\<not> lq_y2 st < p" by simp
  then have "smrng_lq_while E p st = Some st"
    by (subst smrng_lq_while.simps) simp
  then show ?case by blast
next
  case (Suc n)
  show ?case
  proof (cases "lq_y2 st < p")
    case False
    then have "smrng_lq_while E p st = Some st"
      by (subst smrng_lq_while.simps) simp
    then show ?thesis by blast
  next
    case True
    obtain w where w: "E (lq_x2 st * 2) = Some w"
      using tot[of "lq_x2 st * 2"] by auto
    define st2 where "st2 = st\<lparr>lq_x1 := lq_x2 st, lq_y1 := lq_y2 st, lq_x2 := lq_x2 st * 2,
                    lq_y2 := w, lq_itr := lq_itr st + 1\<rparr>"
    have a: "E (lq_x2 st2) = Some (lq_y2 st2)" using w by (simp add: st2_def)
    have b: "E (lq_x2 st2 * 2 ^ n) = Some v"
      using Suc.prems(2) by (simp add: st2_def mult.assoc)
    from Suc.IH[OF a b Suc.prems(3)] obtain st' where "smrng_lq_while E p st2 = Some st'"
      by blast
    moreover have "smrng_lq_while E p st = smrng_lq_while E p st2"
      using True w by (subst smrng_lq_while.simps) (simp add: st2_def)
    ultimately show ?thesis by simp
  qed
qed

lemma bracket_ends:
  assumes tot: "\<And>x. E x \<noteq> None" and v: "E (2 ^ Suc n) = Some v" and p: "p \<le> v"
  shows "\<exists>st. smrng_lq_bracket E p = Some st"
proof -
  obtain w where w: "E 2 = Some w" using tot[of 2] by auto
  define init where "init = \<lparr>lq_x1 = 0, lq_y1 = 0, lq_x2 = 2, lq_y2 = w, lq_x3 = 0, lq_y3 = 0,
                   lq_x = 0, lq_y = 0, lq_itr = 1\<rparr>"
  have a: "E (lq_x2 init) = Some (lq_y2 init)" using w by (simp add: init_def)
  have b: "E (lq_x2 init * 2 ^ n) = Some v" using v by (simp add: init_def)
  from while_ends[of E, OF tot a b p] obtain st' where "smrng_lq_while E p init = Some st'"
    by blast
  then show ?thesis
    using w by (simp add: smrng_lq_bracket_def init_def)
qed

lemma bracket_unfold:
  assumes b: "smrng_lq_bracket E p = Some st0" and p: "0 < p" and z: "E 0 = Some 0"
  shows "\<exists>v st. E 2 = Some v \<and>
           while_post E p \<lparr>lq_x1 = 0, lq_y1 = 0, lq_x2 = 2, lq_y2 = v, lq_x3 = 0, lq_y3 = 0,
                   lq_x = 0, lq_y = 0, lq_itr = 1\<rparr> st \<and>
           st0 = st\<lparr>lq_x3 := lq_x2 st, lq_y3 := lq_y2 st\<rparr>"
proof -
  from b obtain v where v: "E 2 = Some v"
    by (cases "E 2") (simp_all add: smrng_lq_bracket_def)
  define init where "init = \<lparr>lq_x1 = 0, lq_y1 = 0, lq_x2 = 2, lq_y2 = v, lq_x3 = 0, lq_y3 = 0,
                   lq_x = 0, lq_y = 0, lq_itr = 1\<rparr>"
  from b v obtain st where st: "smrng_lq_while E p init = Some st"
    and st0: "st0 = st\<lparr>lq_x3 := lq_x2 st, lq_y3 := lq_y2 st\<rparr>"
    by (cases "smrng_lq_while E p init") (simp_all add: smrng_lq_bracket_def init_def)
  have "while_pre E p init"
    using p z v by (simp add: while_pre_def init_def)
  with while_result[OF st] have "while_post E p init st" by simp
  with v st0 show ?thesis unfolding init_def by blast
qed

lemma bracket_establishes:
  assumes b: "smrng_lq_bracket E p = Some st0" and p: "0 < p" and z: "E 0 = Some 0"
  shows "bracket_inv E p st0"
proof -
  from bracket_unfold[OF assms] obtain v st where
    "while_post E p \<lparr>lq_x1 = 0, lq_y1 = 0, lq_x2 = 2, lq_y2 = v, lq_x3 = 0, lq_y3 = 0,
                   lq_x = 0, lq_y = 0, lq_itr = 1\<rparr> st"
    and "st0 = st\<lparr>lq_x3 := lq_x2 st, lq_y3 := lq_y2 st\<rparr>"
    by blast
  then show ?thesis
    by (simp add: while_post_def bracket_inv_def)
qed

lemma bracket_props:
  assumes "0 < p"
    and "smrng_lq_bracket (\<lambda>x. smrng_lp N x k df nrng) p = Some st"
  shows "lq_x3 st = lq_x2 st \<and> lq_y3 st = lq_y2 st \<and>
         smrng_lp N (lq_x2 st) k df nrng = Some (lq_y2 st) \<and> p \<le> lq_y2 st \<and>
         smrng_lp N (lq_x1 st) k df nrng = Some (lq_y1 st) \<and> lq_y1 st < p \<and>
         (\<exists>n. lq_x2 st = 2 ^ Suc n \<and> lq_itr st = int (Suc n) \<and>
              (\<forall>m<n. \<exists>v. smrng_lp N (2 ^ Suc m) k df nrng = Some v \<and> v < p) \<and>
              (if n = 0 then lq_x1 st = 0 \<and> lq_y1 st = 0 else lq_x2 st = 2 * lq_x1 st))"
proof -
  let ?E = "\<lambda>x. smrng_lp N x k df nrng"
  from bracket_unfold[OF assms(2,1) smrng_lp_0] obtain v s where
    w: "while_post ?E p \<lparr>lq_x1 = 0, lq_y1 = 0, lq_x2 = 2, lq_y2 = v, lq_x3 = 0, lq_y3 = 0,
                   lq_x = 0, lq_y = 0, lq_itr = 1\<rparr> s"
    and st: "st = s\<lparr>lq_x3 := lq_x2 s, lq_y3 := lq_y2 s\<rparr>"
    by blast
  from w obtain n where n: "lq_x2 s = 2 * 2 ^ n" "lq_itr s = 1 + int n"
    "\<forall>m<n. \<exists>v. ?E (2 * 2 ^ m) = Some v \<and> v < p"
    "if n = 0 then s = \<lparr>lq_x1 = 0, lq_y1 = 0, lq_x2 = 2, lq_y2 = v, lq_x3 = 0, lq_y3 = 0,
                   lq_x = 0, lq_y = 0, lq_itr = 1\<rparr> else lq_x2 s = 2 * lq_x1 s"
    unfolding while_post_def by auto
  have d: "if n = 0 then lq_x1 st = 0 \<and> lq_y1 st = 0 else lq_x2 st = 2 * lq_x1 st"
  proof (cases "n = 0")
    case True
    with n(4) have "s = \<lparr>lq_x1 = 0, lq_y1 = 0, lq_x2 = 2, lq_y2 = v, lq_x3 = 0, lq_y3 = 0,
                   lq_x = 0, lq_y = 0, lq_itr = 1\<rparr>" by simp
    then show ?thesis using True st by simp
  next
    case False
    with n(4) show ?thesis using st by simp
  qed
  have "lq_x2 st = 2 ^ Suc n \<and> lq_itr st = int (Suc n) \<and>
              (\<forall>m<n. \<exists>v. smrng_lp N (2 ^ Suc m) k df nrng = Some v \<and> v < p) \<and>
              (if n = 0 then lq_x1 st = 0 \<and> lq_y1 st = 0 else lq_x2 st = 2 * lq_x1 st)"
    using n(1,2,3) d st by simp
  then have "\<exists>n. lq_x2 st = 2 ^ Suc n \<and> lq_itr st = int (Suc n) \<and>
              (\<forall>m<n. \<exists>v. smrng_lp N (2 ^ Suc m) k df nrng = Some v \<and> v < p) \<and>
              (if n = 0 then lq_x1 st = 0 \<and> lq_y1 st = 0 else lq_x2 st = 2 * lq_x1 st)"
    by (rule exI)
  moreover have "lq_x3 st = lq_x2 st \<and> lq_y3 st = lq_y2 st \<and>
         smrng_lp N (lq_x2 st) k df nrng = Some (lq_y2 st) \<and> p \<le> lq_y2 st \<and>
         smrng_lp N (lq_x1 st) k df nrng = Some (lq_y1 st) \<and> lq_y1 st < p"
    using w st by (simp add: while_post_def)
  ultimately show ?thesis by blast
qed

text \<open>
  The solver at a concrete input: \<open>k = 2\<close>, \<open>df = 0\<close>, \<open>nrng = 1\<close>, with the stand-in for
  \<^verbatim>\<open>nrml_p\<close>. There \<^verbatim>\<open>smrng_lp(x, 2, 0, 1)\<close> is \<open>min 1 (x / (2 \<surd>2))\<close> for \<open>x > 0\<close>.
\<close>

lemma unif_lp:
  assumes "0 < x"
  shows "smrng_lp unif_p x 2 0 1 = Some (min 1 (x / (2 * sqrt 2)))"
proof -
  have u: "0 < x / sqrt 2" using assms by simp
  have "unif_p (x / sqrt 2) 2 = min (1 / 2) (x / sqrt 2 / 4)"
    using u by (simp add: unif_p_def max_def min_def)
  then have "rng_lp unif_p x 2 = min 1 (x / (2 * sqrt 2))"
    using assms by (simp add: rng_lp_def min_def field_simps)
  then show ?thesis
    using assms by (simp add: smrng_lp_def pow_1)
qed

lemma sqrt2_bounds: "1 < sqrt 2 \<and> sqrt 2 < 3 / 2"
proof -
  have "sqrt 2 < sqrt ((3 / 2)\<^sup>2)"
    by (subst real_sqrt_less_iff) (simp add: power2_eq_square)
  then show ?thesis by simp
qed

lemma unif_lp_1: "smrng_lp unif_p 1 2 0 1 = Some (sqrt 2 / 4)"
proof -
  have a: "(1::real) / (2 * sqrt 2) = sqrt 2 / 4"
    using real_div_sqrt[of 2] by (simp add: field_simps)
  have "sqrt 2 / 4 \<le> 1" using sqrt2_bounds by linarith
  then have m: "min 1 ((1::real) / (2 * sqrt 2)) = sqrt 2 / 4"
    unfolding a by (simp add: min_def)
  have "smrng_lp unif_p 1 2 0 1 = Some (min 1 (1 / (2 * sqrt 2)))"
    by (rule unif_lp) simp
  then show ?thesis unfolding m .
qed

lemma unif_lp_2: "smrng_lp unif_p 2 2 0 1 = Some (sqrt 2 / 2)"
proof -
  have a: "(2::real) / (2 * sqrt 2) = sqrt 2 / 2"
    using real_div_sqrt[of 2] by (simp add: field_simps)
  have "sqrt 2 / 2 \<le> 1" using sqrt2_bounds by linarith
  then have m: "min 1 ((2::real) / (2 * sqrt 2)) = sqrt 2 / 2"
    unfolding a by (simp add: min_def)
  have "smrng_lp unif_p 2 2 0 1 = Some (min 1 (2 / (2 * sqrt 2)))"
    by (rule unif_lp) simp
  then show ?thesis unfolding m .
qed

lemma unif_lp_4: "smrng_lp unif_p 4 2 0 1 = Some 1"
proof -
  have a: "(4::real) / (2 * sqrt 2) = sqrt 2"
    using real_div_sqrt[of 2] by (simp add: field_simps)
  have "1 \<le> sqrt 2" using sqrt2_bounds by linarith
  then have m: "min 1 ((4::real) / (2 * sqrt 2)) = 1"
    unfolding a by (simp add: min_def)
  have "smrng_lp unif_p 4 2 0 1 = Some (min 1 (4 / (2 * sqrt 2)))"
    by (rule unif_lp) simp
  then show ?thesis unfolding m .
qed

lemma bracket_at_input:
  "smrng_lq_bracket (\<lambda>x. smrng_lp unif_p x 2 0 1) (9 / 10) =
     Some \<lparr>lq_x1 = 2, lq_y1 = sqrt 2 / 2, lq_x2 = 4, lq_y2 = 1, lq_x3 = 4, lq_y3 = 1,
           lq_x = 0, lq_y = 0, lq_itr = 2\<rparr>"
proof -
  let ?E = "\<lambda>x. smrng_lp unif_p x 2 0 1"
  have lt: "sqrt 2 / 2 < 9 / 10" using sqrt2_bounds by linarith
  have "smrng_lq_while ?E (9 / 10)
          \<lparr>lq_x1 = 0, lq_y1 = 0, lq_x2 = 2, lq_y2 = sqrt 2 / 2, lq_x3 = 0, lq_y3 = 0,
           lq_x = 0, lq_y = 0, lq_itr = 1\<rparr> =
        smrng_lq_while ?E (9 / 10)
          \<lparr>lq_x1 = 2, lq_y1 = sqrt 2 / 2, lq_x2 = 4, lq_y2 = 1, lq_x3 = 0, lq_y3 = 0,
           lq_x = 0, lq_y = 0, lq_itr = 2\<rparr>"
    using lt by (subst smrng_lq_while.simps) (simp add: unif_lp_4)
  also have "\<dots> = Some \<lparr>lq_x1 = 2, lq_y1 = sqrt 2 / 2, lq_x2 = 4, lq_y2 = 1, lq_x3 = 0, lq_y3 = 0,
           lq_x = 0, lq_y = 0, lq_itr = 2\<rparr>"
    by (subst smrng_lq_while.simps) simp
  finally show ?thesis
    by (simp add: smrng_lq_bracket_def unif_lp_2)
qed

lemma bracket_at_half:
  "smrng_lq_bracket (\<lambda>x. smrng_lp unif_p x 2 0 1) (1 / 2) =
     Some \<lparr>lq_x1 = 0, lq_y1 = 0, lq_x2 = 2, lq_y2 = sqrt 2 / 2, lq_x3 = 2, lq_y3 = sqrt 2 / 2,
           lq_x = 0, lq_y = 0, lq_itr = 1\<rparr>"
proof -
  have "\<not> sqrt 2 / 2 < 1 / 2" using sqrt2_bounds by linarith
  then have "smrng_lq_while (\<lambda>x. smrng_lp unif_p x 2 0 1) (1 / 2)
          \<lparr>lq_x1 = 0, lq_y1 = 0, lq_x2 = 2, lq_y2 = sqrt 2 / 2, lq_x3 = 0, lq_y3 = 0,
           lq_x = 0, lq_y = 0, lq_itr = 1\<rparr> =
        Some \<lparr>lq_x1 = 0, lq_y1 = 0, lq_x2 = 2, lq_y2 = sqrt 2 / 2, lq_x3 = 0, lq_y3 = 0,
           lq_x = 0, lq_y = 0, lq_itr = 1\<rparr>"
    by (subst smrng_lq_while.simps) simp
  then show ?thesis
    by (simp add: smrng_lq_bracket_def unif_lp_2)
qed

text \<open>
  Claim C9, as amended. For \<open>p > 0\<close> the bracketing phase starts from \<open>x1 = 0\<close>, \<open>y1 = 0\<close>,
  \<open>x2 = 2\<close> and doubles \<open>x2\<close>, carrying the previous \<open>(x2, y2)\<close> into \<open>(x1, y1)\<close>, until
  \<^verbatim>\<open>smrng_lp(x2, k, df, nrng) >= p\<close>: it ends exactly when some \<open>2\<^sup>n\<^sup>+\<^sup>1\<close> reaches \<open>p\<close>, at the
  first such point, after \<open>n + 1\<close> evaluations. When it ends, the seed \<open>(x3, y3)\<close> is the
  final \<open>(x2, y2)\<close>, the point after the last doubling, and the point before the last
  doubling is \<open>(x1, y1)\<close>.
\<close>

theorem bracket_seed:
  assumes "0 < p"
  shows "((\<exists>st. smrng_lq_bracket (\<lambda>x. smrng_lp N x k df nrng) p = Some st) =
            (\<exists>n v. smrng_lp N (2 ^ Suc n) k df nrng = Some v \<and> p \<le> v)) \<and>
         (\<forall>st. smrng_lq_bracket (\<lambda>x. smrng_lp N x k df nrng) p = Some st \<longrightarrow>
            lq_x3 st = lq_x2 st \<and> lq_y3 st = lq_y2 st \<and>
            smrng_lp N (lq_x2 st) k df nrng = Some (lq_y2 st) \<and> p \<le> lq_y2 st \<and>
            smrng_lp N (lq_x1 st) k df nrng = Some (lq_y1 st) \<and> lq_y1 st < p \<and>
            (\<exists>n. lq_x2 st = 2 ^ Suc n \<and> lq_itr st = int (Suc n) \<and>
                 (\<forall>m<n. \<exists>v. smrng_lp N (2 ^ Suc m) k df nrng = Some v \<and> v < p) \<and>
                 (if n = 0 then lq_x1 st = 0 \<and> lq_y1 st = 0 else lq_x2 st = 2 * lq_x1 st)))"
proof -
  let ?E = "\<lambda>x. smrng_lp N x k df nrng"
  have tot: "?E x \<noteq> None" for x by (rule smrng_lp_Some)
  have "\<exists>n v. ?E (2 ^ Suc n) = Some v \<and> p \<le> v" if "smrng_lq_bracket ?E p = Some st" for st
    using bracket_props[OF assms that] by metis
  moreover have "\<exists>st. smrng_lq_bracket ?E p = Some st"
    if "?E (2 ^ Suc n) = Some v" and "p \<le> v" for n v
    using bracket_ends[of ?E, OF tot that] .
  ultimately have "(\<exists>st. smrng_lq_bracket ?E p = Some st) =
            (\<exists>n v. ?E (2 ^ Suc n) = Some v \<and> p \<le> v)"
    by blast
  then show ?thesis
    using bracket_props[OF assms, of N k df nrng] by blast
qed

text \<open>The theorem at \<open>p = 9/10\<close>: one doubling, from 2 to 4.\<close>

theorem bracket_seed_witness:
  "(0::real) < 9 / 10 \<and>
   smrng_lq_bracket (\<lambda>x. smrng_lp unif_p x 2 0 1) (9 / 10) =
     Some \<lparr>lq_x1 = 2, lq_y1 = sqrt 2 / 2, lq_x2 = 4, lq_y2 = 1, lq_x3 = 4, lq_y3 = 1,
           lq_x = 0, lq_y = 0, lq_itr = 2\<rparr> \<and>
   smrng_lp unif_p 4 2 0 1 = Some 1 \<and> (9 / 10 :: real) \<le> 1 \<and>
   smrng_lp unif_p 2 2 0 1 = Some (sqrt 2 / 2) \<and> sqrt 2 / 2 < 9 / 10"
proof -
  have p: "(0::real) < 9 / 10" by simp
  from bracket_seed[OF p, of unif_p 2 0 1] bracket_at_input
  have "smrng_lp unif_p 4 2 0 1 = Some 1 \<and> (9 / 10 :: real) \<le> 1 \<and>
        smrng_lp unif_p 2 2 0 1 = Some (sqrt 2 / 2) \<and> sqrt 2 / 2 < 9 / 10"
    by simp
  with p bracket_at_input show ?thesis by blast
qed

text \<open>
  The seed is not the point before the last doubling. At \<open>p = 9/10\<close> the loop doubles once,
  from the point \<open>(2, \<surd>2/2)\<close>, below \<open>p\<close>, to the point \<open>(4, 1)\<close>; the seed \<open>(x3, y3)\<close> is
  \<open>(4, 1)\<close>.
\<close>

theorem bracket_seed_is_upper_point:
  "smrng_lq_bracket (\<lambda>x. smrng_lp unif_p x 2 0 1) (9 / 10) =
     Some \<lparr>lq_x1 = 2, lq_y1 = sqrt 2 / 2, lq_x2 = 4, lq_y2 = 1, lq_x3 = 4, lq_y3 = 1,
           lq_x = 0, lq_y = 0, lq_itr = 2\<rparr> \<and>
   smrng_lp unif_p 2 2 0 1 = Some (sqrt 2 / 2) \<and> sqrt 2 / 2 < 9 / 10 \<and>
   smrng_lp unif_p 4 2 0 1 = Some 1 \<and>
   (4::real, 1::real) \<noteq> (2, sqrt 2 / 2)"
proof -
  have "sqrt 2 / 2 < 9 / 10" using sqrt2_bounds by linarith
  then show ?thesis
    using bracket_at_input unif_lp_2 unif_lp_4 by simp
qed

subsection \<open>The quantile solver: the bracket invariant\<close>

lemma trial_in_bracket:
  assumes "lq_x1 st < lq_x2 st"
  shows "lq_x1 st \<le> smrng_lq_trial p xeps i st \<and> smrng_lq_trial p xeps i st \<le> lq_x2 st"
  using assms by (auto simp: smrng_lq_trial_def Let_def)

lemma eval_fields:
  assumes "smrng_lq_eval E p xeps i st = Some st1"
  shows "lq_x st1 = smrng_lq_trial p xeps i st \<and> E (lq_x st1) = Some (lq_y st1) \<and>
         lq_itr st1 = lq_itr st + 1 \<and>
         lq_x1 st1 = lq_x1 st \<and> lq_y1 st1 = lq_y1 st \<and> lq_x2 st1 = lq_x2 st \<and>
         lq_y2 st1 = lq_y2 st \<and> lq_x3 st1 = lq_x3 st \<and> lq_y3 st1 = lq_y3 st"
  using assms by (auto simp: smrng_lq_eval_def Let_def split: option.splits)

lemma update_preserves:
  assumes inv: "bracket_inv E p st" and ev: "smrng_lq_eval E p xeps i st = Some st1"
  shows "bracket_inv E p (smrng_lq_update p st1)"
proof -
  note f = eval_fields[OF ev]
  have x12: "lq_x1 st < lq_x2 st" and y1: "lq_y1 st < p" and y2: "p \<le> lq_y2 st"
    and e1: "E (lq_x1 st) = Some (lq_y1 st)" and e2: "E (lq_x2 st) = Some (lq_y2 st)"
    using inv by (simp_all add: bracket_inv_def)
  have ex: "E (lq_x st1) = Some (lq_y st1)" using f by blast
  have tr: "lq_x st1 = smrng_lq_trial p xeps i st" using f by blast
  have lo: "lq_x1 st \<le> lq_x st1" and hi: "lq_x st1 \<le> lq_x2 st"
    using trial_in_bracket[OF x12, of p xeps i] by (simp_all add: tr)
  have same: "lq_x1 st1 = lq_x1 st" "lq_y1 st1 = lq_y1 st" "lq_x2 st1 = lq_x2 st"
    "lq_y2 st1 = lq_y2 st"
    using f by blast+
  show ?thesis
  proof (cases "p \<le> lq_y st1")
    case True
    have "lq_x st1 \<noteq> lq_x1 st"
    proof
      assume "lq_x st1 = lq_x1 st"
      with ex e1 have "lq_y st1 = lq_y1 st" by simp
      with True y1 show False by simp
    qed
    with lo have "lq_x1 st < lq_x st1" by simp
    with True ex e1 y1 same show ?thesis
      by (simp add: smrng_lq_update_def bracket_inv_def)
  next
    case False
    have "lq_x st1 \<noteq> lq_x2 st"
    proof
      assume "lq_x st1 = lq_x2 st"
      with ex e2 have "lq_y st1 = lq_y2 st" by simp
      with False y2 show False by simp
    qed
    with hi have "lq_x st1 < lq_x2 st" by simp
    with False ex e2 y2 same show ?thesis
      by (simp add: smrng_lq_update_def bracket_inv_def)
  qed
qed

lemma head_Suc:
  assumes "smrng_lq_head E p xeps peps st0 (Suc n) = Some st'"
  shows "\<exists>st st1. smrng_lq_head E p xeps peps st0 n = Some st \<and>
           smrng_lq_eval E p xeps (int n + 1) st = Some st1 \<and>
           \<not> smrng_lq_done p xeps peps st1 \<and> st' = smrng_lq_update p st1"
  using assms by (auto split: option.splits if_splits)

lemma head_inv:
  assumes "bracket_inv E p st0"
  shows "smrng_lq_head E p xeps peps st0 n = Some st \<Longrightarrow> bracket_inv E p st"
proof (induction n arbitrary: st)
  case 0
  with assms show ?case by simp
next
  case (Suc n)
  from head_Suc[OF Suc.prems] obtain s s1 where
    h: "smrng_lq_head E p xeps peps st0 n = Some s"
    and e: "smrng_lq_eval E p xeps (int n + 1) s = Some s1"
    and u: "st = smrng_lq_update p s1"
    by blast
  from Suc.IH[OF h] have "bracket_inv E p s" .
  from update_preserves[OF this e] u show ?case by simp
qed

text \<open>
  Claim C5. For \<open>p > 0\<close>, once the bracketing loop has ended, the variables on entering
  every pass of the refinement loop, and on leaving its last pass, satisfy \<open>x1 < x2\<close> and
  \<open>y1 < p \<le> y2\<close>, with \<open>y1\<close> the value of \<^verbatim>\<open>smrng_lp\<close> at \<open>x1\<close> (which is 0 at \<open>x1 = 0\<close>) and \<open>y2\<close>
  its value at \<open>x2\<close>. Each update keeps this: a trial with \<open>y \<ge> p\<close> replaces \<open>(x2, y2)\<close>, the
  old \<open>(x2, y2)\<close> becoming \<open>(x3, y3)\<close>; a trial with \<open>y < p\<close> replaces \<open>(x1, y1)\<close>, the old
  \<open>(x1, y1)\<close> becoming \<open>(x3, y3)\<close>.
\<close>

theorem bracket_invariant:
  assumes "0 < p"
    and "smrng_lq_bracket (\<lambda>x. smrng_lp N x k df nrng) p = Some st0"
    and "smrng_lq_head (\<lambda>x. smrng_lp N x k df nrng) p xeps peps st0 n = Some st"
  shows "lq_x1 st < lq_x2 st \<and> lq_y1 st < p \<and> p \<le> lq_y2 st \<and>
         smrng_lp N (lq_x1 st) k df nrng = Some (lq_y1 st) \<and>
         smrng_lp N (lq_x2 st) k df nrng = Some (lq_y2 st) \<and>
         (\<forall>st'. smrng_lq_head (\<lambda>x. smrng_lp N x k df nrng) p xeps peps st0 (Suc n) = Some st' \<longrightarrow>
            (\<exists>y. smrng_lp N (smrng_lq_trial p xeps (int n + 1) st) k df nrng = Some y \<and>
               (if p \<le> y
                then lq_x2 st' = smrng_lq_trial p xeps (int n + 1) st \<and> lq_y2 st' = y \<and>
                     lq_x3 st' = lq_x2 st \<and> lq_y3 st' = lq_y2 st \<and>
                     lq_x1 st' = lq_x1 st \<and> lq_y1 st' = lq_y1 st
                else lq_x1 st' = smrng_lq_trial p xeps (int n + 1) st \<and> lq_y1 st' = y \<and>
                     lq_x3 st' = lq_x1 st \<and> lq_y3 st' = lq_y1 st \<and>
                     lq_x2 st' = lq_x2 st \<and> lq_y2 st' = lq_y2 st)))"
proof -
  let ?E = "\<lambda>x. smrng_lp N x k df nrng"
  have "bracket_inv ?E p st0"
    by (rule bracket_establishes[OF assms(2,1) smrng_lp_0])
  from head_inv[OF this assms(3)] have inv: "bracket_inv ?E p st" .
  have step: "\<exists>y. ?E (smrng_lq_trial p xeps (int n + 1) st) = Some y \<and>
               (if p \<le> y
                then lq_x2 st' = smrng_lq_trial p xeps (int n + 1) st \<and> lq_y2 st' = y \<and>
                     lq_x3 st' = lq_x2 st \<and> lq_y3 st' = lq_y2 st \<and>
                     lq_x1 st' = lq_x1 st \<and> lq_y1 st' = lq_y1 st
                else lq_x1 st' = smrng_lq_trial p xeps (int n + 1) st \<and> lq_y1 st' = y \<and>
                     lq_x3 st' = lq_x1 st \<and> lq_y3 st' = lq_y1 st \<and>
                     lq_x2 st' = lq_x2 st \<and> lq_y2 st' = lq_y2 st)"
    if h: "smrng_lq_head ?E p xeps peps st0 (Suc n) = Some st'" for st'
  proof -
    from head_Suc[OF h] assms(3) obtain s1 where
      e: "smrng_lq_eval ?E p xeps (int n + 1) st = Some s1"
      and u: "st' = smrng_lq_update p s1"
      by auto
    note f = eval_fields[OF e]
    have fx: "lq_x s1 = smrng_lq_trial p xeps (int n + 1) st"
      using f by blast
    have "?E (lq_x s1) = Some (lq_y s1)"
      using f by blast
    then have "?E (smrng_lq_trial p xeps (int n + 1) st) = Some (lq_y s1)"
      unfolding fx .
    moreover have "if p \<le> lq_y s1
                then lq_x2 st' = smrng_lq_trial p xeps (int n + 1) st \<and> lq_y2 st' = lq_y s1 \<and>
                     lq_x3 st' = lq_x2 st \<and> lq_y3 st' = lq_y2 st \<and>
                     lq_x1 st' = lq_x1 st \<and> lq_y1 st' = lq_y1 st
                else lq_x1 st' = smrng_lq_trial p xeps (int n + 1) st \<and> lq_y1 st' = lq_y s1 \<and>
                     lq_x3 st' = lq_x1 st \<and> lq_y3 st' = lq_y1 st \<and>
                     lq_x2 st' = lq_x2 st \<and> lq_y2 st' = lq_y2 st"
      using f u by (simp add: smrng_lq_update_def)
    ultimately show ?thesis by blast
  qed
  from inv step show ?thesis
    unfolding bracket_inv_def by blast
qed

text \<open>The theorem at \<open>p = 9/10\<close>, on entering the first pass.\<close>

theorem bracket_invariant_witness:
  "(0::real) < 9 / 10 \<and>
   smrng_lq_bracket (\<lambda>x. smrng_lp unif_p x 2 0 1) (9 / 10) =
     Some \<lparr>lq_x1 = 2, lq_y1 = sqrt 2 / 2, lq_x2 = 4, lq_y2 = 1, lq_x3 = 4, lq_y3 = 1,
           lq_x = 0, lq_y = 0, lq_itr = 2\<rparr> \<and>
   smrng_lq_head (\<lambda>x. smrng_lp unif_p x 2 0 1) (9 / 10) (1 / 10 ^ 8) (1 / 10 ^ 8)
     \<lparr>lq_x1 = 2, lq_y1 = sqrt 2 / 2, lq_x2 = 4, lq_y2 = 1, lq_x3 = 4, lq_y3 = 1,
      lq_x = 0, lq_y = 0, lq_itr = 2\<rparr> 0 =
     Some \<lparr>lq_x1 = 2, lq_y1 = sqrt 2 / 2, lq_x2 = 4, lq_y2 = 1, lq_x3 = 4, lq_y3 = 1,
           lq_x = 0, lq_y = 0, lq_itr = 2\<rparr> \<and>
   (2::real) < 4 \<and> sqrt 2 / 2 < 9 / 10 \<and> (9 / 10 :: real) \<le> 1 \<and>
   smrng_lp unif_p 2 2 0 1 = Some (sqrt 2 / 2) \<and> smrng_lp unif_p 4 2 0 1 = Some 1"
proof -
  have p: "(0::real) < 9 / 10" by simp
  have h: "smrng_lq_head (\<lambda>x. smrng_lp unif_p x 2 0 1) (9 / 10) (1 / 10 ^ 8) (1 / 10 ^ 8)
     \<lparr>lq_x1 = 2, lq_y1 = sqrt 2 / 2, lq_x2 = 4, lq_y2 = 1, lq_x3 = 4, lq_y3 = 1,
      lq_x = 0, lq_y = 0, lq_itr = 2\<rparr> 0 =
     Some \<lparr>lq_x1 = 2, lq_y1 = sqrt 2 / 2, lq_x2 = 4, lq_y2 = 1, lq_x3 = 4, lq_y3 = 1,
           lq_x = 0, lq_y = 0, lq_itr = 2\<rparr>"
    by simp
  from bracket_invariant[OF p bracket_at_input h] bracket_at_input
  show ?thesis by simp
qed

subsection \<open>The quantile solver: the trial point\<close>

lemma c_rem_even: "even i \<Longrightarrow> c_rem i 2 = 0"
  by (auto simp: c_rem_def elim!: evenE)

lemma quad_coincident:
  assumes co: "\<bar>lq_x1 st - lq_x3 st\<bar> < xeps \<or> \<bar>lq_x2 st - lq_x3 st\<bar> < xeps"
    and x: "lq_x1 st < lq_x2 st" and y1: "lq_y1 st < p" and y2: "p \<le> lq_y2 st"
  shows "smrng_lq_quad p xeps st =
           lq_x1 st + (p - lq_y1 st) * (lq_x2 st - lq_x1 st) / (lq_y2 st - lq_y1 st)"
    and "lq_x1 st \<le> smrng_lq_quad p xeps st" and "smrng_lq_quad p xeps st \<le> lq_x2 st"
proof -
  define b where "b = (lq_y2 st - lq_y1 st) / (lq_x2 st - lq_x1 st)"
  have dy: "0 < lq_y2 st - lq_y1 st" and dx: "0 < lq_x2 st - lq_x1 st"
    using x y1 y2 by simp_all
  then have b: "0 < b" by (simp add: b_def)
  have "smrng_lq_quad p xeps st = lq_x1 st + 2 * (p - lq_y1 st) / (b + sqrt (b * b))"
    using co by (simp add: smrng_lq_quad_def Let_def b_def)
  also have "\<dots> = lq_x1 st + (p - lq_y1 st) / b"
    using b by (simp add: field_simps)
  also have "\<dots> = lq_x1 st + (p - lq_y1 st) * (lq_x2 st - lq_x1 st) / (lq_y2 st - lq_y1 st)"
    by (simp add: b_def)
  finally show q: "smrng_lq_quad p xeps st =
           lq_x1 st + (p - lq_y1 st) * (lq_x2 st - lq_x1 st) / (lq_y2 st - lq_y1 st)" .
  have "0 \<le> (p - lq_y1 st) * (lq_x2 st - lq_x1 st) / (lq_y2 st - lq_y1 st)"
    using dx dy y1 by simp
  then show "lq_x1 st \<le> smrng_lq_quad p xeps st" by (simp add: q)
  have "(p - lq_y1 st) * (lq_x2 st - lq_x1 st) \<le> (lq_y2 st - lq_y1 st) * (lq_x2 st - lq_x1 st)"
    using dx y2 by (intro mult_right_mono) simp_all
  then have "(p - lq_y1 st) * (lq_x2 st - lq_x1 st) / (lq_y2 st - lq_y1 st) \<le> lq_x2 st - lq_x1 st"
    using dy by (simp add: field_simps)
  then show "smrng_lq_quad p xeps st \<le> lq_x2 st" by (simp add: q)
qed

text \<open>
  Claim C6, as amended. In a pass with an even number and \<open>|y2 - y1| \<ge> 10\<^sup>-\<^sup>1\<^sup>2\<close>: if the point
  computed by the interpolation falls outside \<open>[x1, x2]\<close>, the trial point is the midpoint
  \<open>0.5 (x1 + x2)\<close>, and otherwise it is the computed point; if \<open>x3\<close> is within \<open>xeps\<close> of \<open>x1\<close> or
  of \<open>x2\<close>, the coefficient \<open>a\<close> is set to 0 and, under the bracket invariant, the computed
  point is that of the linear interpolation between \<open>(x1, y1)\<close> and \<open>(x2, y2)\<close>, which lies
  in \<open>[x1, x2]\<close> and is the trial point.
\<close>

theorem trial_fallback:
  assumes "even i" and "YEPS \<le> \<bar>lq_y2 st - lq_y1 st\<bar>"
  shows "(smrng_lq_quad p xeps st < lq_x1 st \<or> lq_x2 st < smrng_lq_quad p xeps st \<longrightarrow>
            smrng_lq_trial p xeps i st = 0.5 * (lq_x1 st + lq_x2 st)) \<and>
         (lq_x1 st \<le> smrng_lq_quad p xeps st \<and> smrng_lq_quad p xeps st \<le> lq_x2 st \<longrightarrow>
            smrng_lq_trial p xeps i st = smrng_lq_quad p xeps st) \<and>
         ((\<bar>lq_x1 st - lq_x3 st\<bar> < xeps \<or> \<bar>lq_x2 st - lq_x3 st\<bar> < xeps) \<and>
          lq_x1 st < lq_x2 st \<and> lq_y1 st < p \<and> p \<le> lq_y2 st \<longrightarrow>
            smrng_lq_trial p xeps i st =
              lq_x1 st + (p - lq_y1 st) * (lq_x2 st - lq_x1 st) / (lq_y2 st - lq_y1 st))"
proof -
  have g: "\<not> (c_rem i 2 = 1 \<or> \<bar>lq_y2 st - lq_y1 st\<bar> < YEPS)"
    using assms by (simp add: c_rem_even)
  have t: "smrng_lq_trial p xeps i st =
     (if smrng_lq_quad p xeps st < lq_x1 st \<or> lq_x2 st < smrng_lq_quad p xeps st
      then 0.5 * (lq_x1 st + lq_x2 st) else smrng_lq_quad p xeps st)"
    using g by (simp add: smrng_lq_trial_def Let_def)
  have "smrng_lq_trial p xeps i st =
              lq_x1 st + (p - lq_y1 st) * (lq_x2 st - lq_x1 st) / (lq_y2 st - lq_y1 st)"
    if "(\<bar>lq_x1 st - lq_x3 st\<bar> < xeps \<or> \<bar>lq_x2 st - lq_x3 st\<bar> < xeps) \<and>
          lq_x1 st < lq_x2 st \<and> lq_y1 st < p \<and> p \<le> lq_y2 st"
  proof -
    from that have co: "\<bar>lq_x1 st - lq_x3 st\<bar> < xeps \<or> \<bar>lq_x2 st - lq_x3 st\<bar> < xeps"
      and x: "lq_x1 st < lq_x2 st" and y1: "lq_y1 st < p" and y2: "p \<le> lq_y2 st"
      by blast+
    from quad_coincident[OF co x y1 y2] show ?thesis
      unfolding t by simp
  qed
  then show ?thesis unfolding t by auto
qed

lemma sqrt2_quarter: "YEPS \<le> \<bar>sqrt 2 / 2 - sqrt 2 / 4\<bar>"
proof -
  have "(1::real) < sqrt 2" using sqrt2_bounds by blast
  moreover have "YEPS \<le> 1 / 4" by (simp add: YEPS_def)
  ultimately show ?thesis by linarith
qed

lemma secant_value:
  "(1::real) + (1 / 2 - sqrt 2 / 4) * (2 - 1) / (sqrt 2 / 2 - sqrt 2 / 4) = sqrt 2"
proof -
  have "(1 / 2 - sqrt 2 / 4) / (sqrt 2 / 4) = (2 - sqrt 2) / sqrt 2"
    by (simp add: field_simps)
  also have "\<dots> = 2 / sqrt 2 - 1"
    by (simp add: diff_divide_distrib)
  also have "\<dots> = sqrt 2 - 1"
    using real_div_sqrt[of 2] by simp
  finally have "(1 / 2 - sqrt 2 / 4) / (sqrt 2 / 4) = sqrt 2 - 1" .
  moreover have "sqrt 2 / 2 - sqrt 2 / 4 = sqrt 2 / 4" by simp
  ultimately show ?thesis by simp
qed

text \<open>
  The theorem at the second pass of the run with \<open>p = 1/2\<close>, \<open>xeps = 3\<close>: \<open>x3 = 0\<close> is within
  \<open>xeps\<close> of \<open>x1 = 1\<close>, and the trial point is \<open>\<surd>2\<close>.
\<close>

theorem trial_fallback_witness:
  "even (2::int) \<and> YEPS \<le> \<bar>sqrt 2 / 2 - sqrt 2 / 4\<bar> \<and> \<bar>(1::real) - 0\<bar> < 3 \<and>
   (1::real) < 2 \<and> sqrt 2 / 4 < 1 / 2 \<and> 1 / 2 \<le> sqrt 2 / 2 \<and>
   smrng_lq_trial (1 / 2) 3 2
     \<lparr>lq_x1 = 1, lq_y1 = sqrt 2 / 4, lq_x2 = 2, lq_y2 = sqrt 2 / 2, lq_x3 = 0, lq_y3 = 0,
      lq_x = 1, lq_y = sqrt 2 / 4, lq_itr = 2\<rparr> = sqrt 2"
proof -
  let ?s = "\<lparr>lq_x1 = 1, lq_y1 = sqrt 2 / 4, lq_x2 = 2, lq_y2 = sqrt 2 / 2, lq_x3 = 0, lq_y3 = 0,
      lq_x = 1, lq_y = sqrt 2 / 4, lq_itr = 2\<rparr>"
  have e: "even (2::int)" by simp
  have y: "YEPS \<le> \<bar>lq_y2 ?s - lq_y1 ?s\<bar>" using sqrt2_quarter by simp
  have b: "sqrt 2 / 4 < 1 / 2 \<and> 1 / 2 \<le> sqrt 2 / 2"
    using sqrt2_bounds by linarith
  then have c: "(\<bar>lq_x1 ?s - lq_x3 ?s\<bar> < 3 \<or> \<bar>lq_x2 ?s - lq_x3 ?s\<bar> < 3) \<and>
          lq_x1 ?s < lq_x2 ?s \<and> lq_y1 ?s < 1 / 2 \<and> 1 / 2 \<le> lq_y2 ?s"
    by simp
  from trial_fallback[OF e y, of "1 / 2" 3] c
  have "smrng_lq_trial (1 / 2) 3 2 ?s =
      lq_x1 ?s + (1 / 2 - lq_y1 ?s) * (lq_x2 ?s - lq_x1 ?s) / (lq_y2 ?s - lq_y1 ?s)"
    by blast
  then have "smrng_lq_trial (1 / 2) 3 2 ?s = sqrt 2"
    using secant_value by simp
  then show ?thesis
    using sqrt2_quarter b by simp
qed

lemma eval_pass_1:
  "smrng_lq_eval (\<lambda>x. smrng_lp unif_p x 2 0 1) (1 / 2) xeps 1
     \<lparr>lq_x1 = 0, lq_y1 = 0, lq_x2 = 2, lq_y2 = sqrt 2 / 2, lq_x3 = 2, lq_y3 = sqrt 2 / 2,
      lq_x = 0, lq_y = 0, lq_itr = 1\<rparr> =
   Some \<lparr>lq_x1 = 0, lq_y1 = 0, lq_x2 = 2, lq_y2 = sqrt 2 / 2, lq_x3 = 2, lq_y3 = sqrt 2 / 2,
      lq_x = 1, lq_y = sqrt 2 / 4, lq_itr = 2\<rparr>"
  by (simp add: smrng_lq_eval_def smrng_lq_trial_def c_rem_def unif_lp_1)

lemma head_1_at_half:
  "smrng_lq_head (\<lambda>x. smrng_lp unif_p x 2 0 1) (1 / 2) 3 0
     \<lparr>lq_x1 = 0, lq_y1 = 0, lq_x2 = 2, lq_y2 = sqrt 2 / 2, lq_x3 = 2, lq_y3 = sqrt 2 / 2,
      lq_x = 0, lq_y = 0, lq_itr = 1\<rparr> 1 =
   Some \<lparr>lq_x1 = 1, lq_y1 = sqrt 2 / 4, lq_x2 = 2, lq_y2 = sqrt 2 / 2, lq_x3 = 0, lq_y3 = 0,
      lq_x = 1, lq_y = sqrt 2 / 4, lq_itr = 2\<rparr>"
proof -
  have "\<not> 1 / 2 \<le> sqrt 2 / 4" using sqrt2_bounds by linarith
  then show ?thesis
    unfolding One_nat_def smrng_lq_head.simps
    by (simp add: eval_pass_1 smrng_lq_done_def smrng_lq_update_def)
qed

lemma trial_pass_2:
  "smrng_lq_trial (1 / 2) 3 2
     \<lparr>lq_x1 = 1, lq_y1 = sqrt 2 / 4, lq_x2 = 2, lq_y2 = sqrt 2 / 2, lq_x3 = 0, lq_y3 = 0,
      lq_x = 1, lq_y = sqrt 2 / 4, lq_itr = 2\<rparr> = sqrt 2"
proof -
  let ?s = "\<lparr>lq_x1 = 1, lq_y1 = sqrt 2 / 4, lq_x2 = 2, lq_y2 = sqrt 2 / 2, lq_x3 = 0, lq_y3 = 0,
      lq_x = 1, lq_y = sqrt 2 / 4, lq_itr = 2\<rparr>"
  have co: "\<bar>lq_x1 ?s - lq_x3 ?s\<bar> < 3 \<or> \<bar>lq_x2 ?s - lq_x3 ?s\<bar> < 3" by simp
  have x: "lq_x1 ?s < lq_x2 ?s" by simp
  have "sqrt 2 / 4 < 1 / 2 \<and> 1 / 2 \<le> sqrt 2 / 2"
    using sqrt2_bounds by linarith
  then have y1: "lq_y1 ?s < 1 / 2" and y2: "1 / 2 \<le> lq_y2 ?s" by simp_all
  note q = quad_coincident[OF co x y1 y2]
  have v: "smrng_lq_quad (1 / 2) 3 ?s = sqrt 2"
    using q(1) secant_value by simp
  have g: "\<not> (c_rem 2 2 = 1 \<or> \<bar>lq_y2 ?s - lq_y1 ?s\<bar> < YEPS)"
    using sqrt2_quarter by (simp add: c_rem_def)
  have r: "\<not> (smrng_lq_quad (1 / 2) 3 ?s < lq_x1 ?s \<or> smrng_lq_quad (1 / 2) 3 ?s > lq_x2 ?s)"
    using q(2,3) by simp
  show ?thesis
    unfolding smrng_lq_trial_def Let_def using g r v by simp
qed

text \<open>
  A historical point within \<open>xeps\<close> of an endpoint does not give the bisection midpoint.
  In the run with \<open>p = 1/2\<close>, \<open>k = 2\<close>, \<open>df = 0\<close>, \<open>nrng = 1\<close>, \<open>xeps = 3\<close>, \<open>peps = 0\<close>, the second
  pass is entered with \<open>x1 = 1\<close>, \<open>x2 = 2\<close>, \<open>x3 = 0\<close>, so \<open>|x1 - x3| < xeps\<close>, and
  \<open>|y2 - y1| \<ge> 10\<^sup>-\<^sup>1\<^sup>2\<close>; its trial point is \<open>\<surd>2\<close>, not the midpoint \<open>3/2\<close>.
\<close>

theorem coincident_point_gives_secant:
  "smrng_lq_bracket (\<lambda>x. smrng_lp unif_p x 2 0 1) (1 / 2) =
     Some \<lparr>lq_x1 = 0, lq_y1 = 0, lq_x2 = 2, lq_y2 = sqrt 2 / 2, lq_x3 = 2, lq_y3 = sqrt 2 / 2,
           lq_x = 0, lq_y = 0, lq_itr = 1\<rparr> \<and>
   smrng_lq_head (\<lambda>x. smrng_lp unif_p x 2 0 1) (1 / 2) 3 0
     \<lparr>lq_x1 = 0, lq_y1 = 0, lq_x2 = 2, lq_y2 = sqrt 2 / 2, lq_x3 = 2, lq_y3 = sqrt 2 / 2,
      lq_x = 0, lq_y = 0, lq_itr = 1\<rparr> 1 =
     Some \<lparr>lq_x1 = 1, lq_y1 = sqrt 2 / 4, lq_x2 = 2, lq_y2 = sqrt 2 / 2, lq_x3 = 0, lq_y3 = 0,
           lq_x = 1, lq_y = sqrt 2 / 4, lq_itr = 2\<rparr> \<and>
   even (2::int) \<and> YEPS \<le> \<bar>sqrt 2 / 2 - sqrt 2 / 4\<bar> \<and> \<bar>(1::real) - 0\<bar> < 3 \<and>
   smrng_lq_trial (1 / 2) 3 2
     \<lparr>lq_x1 = 1, lq_y1 = sqrt 2 / 4, lq_x2 = 2, lq_y2 = sqrt 2 / 2, lq_x3 = 0, lq_y3 = 0,
      lq_x = 1, lq_y = sqrt 2 / 4, lq_itr = 2\<rparr> = sqrt 2 \<and>
   sqrt 2 \<noteq> 0.5 * (1 + 2)"
proof -
  have "sqrt 2 < 3 / 2" using sqrt2_bounds by blast
  then have "sqrt 2 \<noteq> 3 / 2" by linarith
  moreover have "(0.5::real) * (1 + 2) = 3 / 2" by simp
  ultimately have "sqrt 2 \<noteq> 0.5 * (1 + 2)" by (simp only:) simp
  then show ?thesis
    using bracket_at_half head_1_at_half trial_pass_2 sqrt2_quarter by simp
qed

subsection \<open>The quantile solver: leaving the refinement loop\<close>

lemma update_itr: "lq_itr (smrng_lq_update p st) = lq_itr st \<and> lq_x (smrng_lq_update p st) = lq_x st"
  by (simp add: smrng_lq_update_def)

lemma head_itr:
  "smrng_lq_head E p xeps peps st0 n = Some st \<Longrightarrow> lq_itr st = lq_itr st0 + int n"
proof (induction n arbitrary: st)
  case 0
  then show ?case by simp
next
  case (Suc n)
  from head_Suc[OF Suc.prems] obtain s s1 where
    h: "smrng_lq_head E p xeps peps st0 n = Some s"
    and e: "smrng_lq_eval E p xeps (int n + 1) s = Some s1"
    and u: "st = smrng_lq_update p s1"
    by blast
  from Suc.IH[OF h] eval_fields[OF e] u show ?case
    by (simp add: update_itr)
qed

lemma for_step:
  assumes "i < 201" and "smrng_lq_eval E p xeps i st = Some st1"
  shows "smrng_lq_for E p xeps peps i st =
     (if smrng_lq_done p xeps peps st1 then Some st1
      else smrng_lq_for E p xeps peps (i + 1) (smrng_lq_update p st1))"
  using assms by (subst smrng_lq_for.simps) simp

lemma for_exit: "smrng_lq_for E p xeps peps 201 st = Some st"
  by (subst smrng_lq_for.simps) simp

lemma for_head:
  "smrng_lq_head E p xeps peps st0 n = Some st \<Longrightarrow> n \<le> 200 \<Longrightarrow>
     smrng_lq_for E p xeps peps 1 st0 = smrng_lq_for E p xeps peps (int n + 1) st"
proof (induction n arbitrary: st)
  case 0
  then show ?case by simp
next
  case (Suc n)
  from head_Suc[OF Suc.prems(1)] obtain s s1 where
    h: "smrng_lq_head E p xeps peps st0 n = Some s"
    and e: "smrng_lq_eval E p xeps (int n + 1) s = Some s1"
    and d: "\<not> smrng_lq_done p xeps peps s1"
    and u: "st = smrng_lq_update p s1"
    by blast
  have i: "int n + 1 < 201" using Suc.prems(2) by simp
  have "smrng_lq_for E p xeps peps 1 st0 = smrng_lq_for E p xeps peps (int n + 1) s"
    using Suc.IH[OF h] Suc.prems(2) by simp
  also have "\<dots> = smrng_lq_for E p xeps peps (int n + 1 + 1) st"
    using for_step[OF i e, of peps] d u by simp
  finally show ?case by (simp add: add.commute)
qed

lemma exit_cap_intro:
  assumes "smrng_lq_head E p xeps peps st0 200 = Some stf"
  shows "exit_cap E p xeps peps st0 stf"
proof -
  have "smrng_lq_head E p xeps peps st0 (Suc 199) = Some stf" using assms by simp
  from head_Suc[OF this] obtain s s1 where
    h: "smrng_lq_head E p xeps peps st0 199 = Some s"
    and e: "smrng_lq_eval E p xeps (int 199 + 1) s = Some s1"
    and u: "stf = smrng_lq_update p s1"
    by blast
  have "lq_x stf = smrng_lq_trial p xeps 200 s"
    using eval_fields[OF e] u by (simp add: update_itr)
  with h head_itr[OF assms] assms show ?thesis
    unfolding exit_cap_def by auto
qed

lemma for_total:
  assumes tot: "\<And>x. E x \<noteq> None"
  shows "smrng_lq_head E p xeps peps st0 n = Some st \<Longrightarrow> n + j = 200 \<Longrightarrow>
     \<exists>stf. smrng_lq_for E p xeps peps (int n + 1) st = Some stf \<and>
           (exit_early E p xeps peps st0 stf \<or> exit_cap E p xeps peps st0 stf)"
proof (induction j arbitrary: n st)
  case 0
  then have n: "n = 200" by simp
  with 0 have h: "smrng_lq_head E p xeps peps st0 200 = Some st" by simp
  have "smrng_lq_for E p xeps peps (int n + 1) st = Some st"
    using for_exit[of E p xeps peps st] n by simp
  with exit_cap_intro[OF h] show ?case by blast
next
  case (Suc j)
  then have n: "n < 200" by simp
  then have i: "int n + 1 < 201" by simp
  obtain v where v: "E (smrng_lq_trial p xeps (int n + 1) st) = Some v"
    using tot[of "smrng_lq_trial p xeps (int n + 1) st"] by auto
  define st1 where "st1 = st\<lparr>lq_x := smrng_lq_trial p xeps (int n + 1) st, lq_y := v,
                        lq_itr := lq_itr st + 1\<rparr>"
  have e: "smrng_lq_eval E p xeps (int n + 1) st = Some st1"
    using v by (simp add: smrng_lq_eval_def st1_def)
  show ?case
  proof (cases "smrng_lq_done p xeps peps st1")
    case True
    have f: "smrng_lq_for E p xeps peps (int n + 1) st = Some st1"
      using for_step[OF i e, of peps] True by simp
    have "lq_x st1 = smrng_lq_trial p xeps (int n + 1) st"
      and "lq_itr st1 = lq_itr st0 + int n + 1"
      using head_itr[OF Suc.prems(1)] by (simp_all add: st1_def)
    with n Suc.prems(1) e True have "exit_early E p xeps peps st0 st1"
      unfolding exit_early_def by blast
    with f show ?thesis by blast
  next
    case False
    have h: "smrng_lq_head E p xeps peps st0 (Suc n) = Some (smrng_lq_update p st1)"
      using Suc.prems(1) e False by simp
    have "Suc n + j = 200" using Suc.prems(2) by simp
    from Suc.IH[OF h this] obtain stf where
      "smrng_lq_for E p xeps peps (int (Suc n) + 1) (smrng_lq_update p st1) = Some stf"
      and r: "exit_early E p xeps peps st0 stf \<or> exit_cap E p xeps peps st0 stf"
      by blast
    moreover have "smrng_lq_for E p xeps peps (int n + 1) st =
        smrng_lq_for E p xeps peps (int n + 1 + 1) (smrng_lq_update p st1)"
      using for_step[OF i e, of peps] False by simp
    ultimately have "smrng_lq_for E p xeps peps (int n + 1) st = Some stf"
      by (simp add: add.commute)
    with r show ?thesis by blast
  qed
qed

lemma head_passes:
  "smrng_lq_head E p xeps peps st0 n = Some st \<Longrightarrow>
     smrng_lq_passes E p xeps st0 n = Some st \<and>
     (\<forall>m<n. \<exists>s u. smrng_lq_passes E p xeps st0 m = Some s \<and>
        smrng_lq_eval E p xeps (int m + 1) s = Some u \<and> \<not> smrng_lq_done p xeps peps u)"
proof (induction n arbitrary: st)
  case 0
  then show ?case by simp
next
  case (Suc n)
  from head_Suc[OF Suc.prems] obtain s s1 where
    h: "smrng_lq_head E p xeps peps st0 n = Some s"
    and e: "smrng_lq_eval E p xeps (int n + 1) s = Some s1"
    and d: "\<not> smrng_lq_done p xeps peps s1"
    and u: "st = smrng_lq_update p s1"
    by blast
  from Suc.IH[OF h] have ps: "smrng_lq_passes E p xeps st0 n = Some s"
    and before: "\<forall>m<n. \<exists>s u. smrng_lq_passes E p xeps st0 m = Some s \<and>
        smrng_lq_eval E p xeps (int m + 1) s = Some u \<and> \<not> smrng_lq_done p xeps peps u"
    by blast+
  have a: "smrng_lq_passes E p xeps st0 (Suc n) = Some st"
    using ps e u by simp
  have b: "\<exists>s u. smrng_lq_passes E p xeps st0 m = Some s \<and>
        smrng_lq_eval E p xeps (int m + 1) s = Some u \<and> \<not> smrng_lq_done p xeps peps u"
    if "m < Suc n" for m
  proof (cases "m = n")
    case True
    with ps e d show ?thesis by blast
  next
    case False
    with that have "m < n" by simp
    with before show ?thesis by blast
  qed
  from a b show ?case by blast
qed

text \<open>
  Claim C7. The refinement loop started at \<open>st0\<close> always ends, at a pass \<open>n + 1 \<le> 200\<close>
  that the two tolerances determine. In each pass \<open>m + 1\<close> before it the trial evaluation
  left \<open>|x2 - x1| < xeps\<close> or \<open>|y - p| < peps\<close> false, and the loop went on with the updated
  bracket. In pass \<open>n + 1\<close> either both hold after the trial evaluation, and the loop
  leaves through \<^verbatim>\<open>break\<close> at once, before the update; or they do not both hold, and then
  \<open>n + 1 = 200\<close> and the loop ends after the update of pass 200. So the loop leaves
  before the end of pass 200 exactly at the first pass whose trial satisfies both
  tolerances. In both cases the answer is the trial point of pass \<open>n + 1\<close>, the count of
  evaluations has grown by \<open>n + 1\<close>, and \<^verbatim>\<open>smrng_lq\<close> returns that point and the count, and
  nothing else.
\<close>

theorem refinement_exit:
  "\<exists>stf n s t.
     smrng_lq_for (\<lambda>x. smrng_lp N x k df nrng) p xeps peps 1 st0 = Some stf \<and>
     n < 200 \<and>
     smrng_lq_passes (\<lambda>x. smrng_lp N x k df nrng) p xeps st0 n = Some s \<and>
     smrng_lq_eval (\<lambda>x. smrng_lp N x k df nrng) p xeps (int n + 1) s = Some t \<and>
     (\<forall>m<n. \<exists>s' u.
        smrng_lq_passes (\<lambda>x. smrng_lp N x k df nrng) p xeps st0 m = Some s' \<and>
        smrng_lq_eval (\<lambda>x. smrng_lp N x k df nrng) p xeps (int m + 1) s' = Some u \<and>
        \<not> (\<bar>lq_x2 u - lq_x1 u\<bar> < xeps \<and> \<bar>lq_y u - p\<bar> < peps)) \<and>
     (if \<bar>lq_x2 t - lq_x1 t\<bar> < xeps \<and> \<bar>lq_y t - p\<bar> < peps then stf = t
      else n = 199 \<and> stf = smrng_lq_update p t) \<and>
     lq_x1 t = lq_x1 s \<and> lq_x2 t = lq_x2 s \<and>
     lq_x t = smrng_lq_trial p xeps (int n + 1) s \<and>
     smrng_lp N (lq_x t) k df nrng = Some (lq_y t) \<and>
     lq_x stf = lq_x t \<and>
     lq_itr stf = lq_itr st0 + int n + 1 \<and>
     (0 < p \<and> p < 1 \<and> smrng_lq_bracket (\<lambda>x. smrng_lp N x k df nrng) p = Some st0 \<longrightarrow>
        smrng_lq N p k df nrng xeps peps = Some (lq_x stf, lq_itr stf))"
proof -
  let ?E = "\<lambda>x. smrng_lp N x k df nrng"
  have tot: "?E x \<noteq> None" for x by (rule smrng_lp_Some)
  have "smrng_lq_head ?E p xeps peps st0 0 = Some st0" by simp
  from for_total[of ?E, OF tot this, of 200]
  obtain stf where f: "smrng_lq_for ?E p xeps peps 1 st0 = Some stf"
    and w: "exit_early ?E p xeps peps st0 stf \<or> exit_cap ?E p xeps peps st0 stf"
    by auto
  have r: "0 < p \<and> p < 1 \<and> smrng_lq_bracket ?E p = Some st0 \<longrightarrow>
      smrng_lq N p k df nrng xeps peps = Some (lq_x stf, lq_itr stf)"
    using f by (simp add: smrng_lq_def)
  have "\<exists>n s t. n < 200 \<and> smrng_lq_head ?E p xeps peps st0 n = Some s \<and>
      smrng_lq_eval ?E p xeps (int n + 1) s = Some t \<and>
      (if smrng_lq_done p xeps peps t then stf = t else n = 199 \<and> stf = smrng_lq_update p t)"
  proof -
    from w show ?thesis
    proof
      assume "exit_early ?E p xeps peps st0 stf"
      then obtain n s where "n < 200" "smrng_lq_head ?E p xeps peps st0 n = Some s"
        "smrng_lq_eval ?E p xeps (int n + 1) s = Some stf" "smrng_lq_done p xeps peps stf"
        unfolding exit_early_def by blast
      then show ?thesis by auto
    next
      assume "exit_cap ?E p xeps peps st0 stf"
      then have "smrng_lq_head ?E p xeps peps st0 (Suc 199) = Some stf"
        unfolding exit_cap_def by simp
      from head_Suc[OF this] obtain s s1 where
        "smrng_lq_head ?E p xeps peps st0 199 = Some s"
        "smrng_lq_eval ?E p xeps (int 199 + 1) s = Some s1"
        "\<not> smrng_lq_done p xeps peps s1" "stf = smrng_lq_update p s1"
        by blast
      then show ?thesis
        by (intro exI[where x = "199::nat"] exI[where x = s] exI[where x = s1]) simp
    qed
  qed
  then obtain n s t where n: "n < 200"
    and h: "smrng_lq_head ?E p xeps peps st0 n = Some s"
    and e: "smrng_lq_eval ?E p xeps (int n + 1) s = Some t"
    and x: "if smrng_lq_done p xeps peps t then stf = t
            else n = 199 \<and> stf = smrng_lq_update p t"
    by blast
  from head_passes[OF h] have ps: "smrng_lq_passes ?E p xeps st0 n = Some s"
    and before: "\<forall>m<n. \<exists>s' u. smrng_lq_passes ?E p xeps st0 m = Some s' \<and>
        smrng_lq_eval ?E p xeps (int m + 1) s' = Some u \<and> \<not> smrng_lq_done p xeps peps u"
    by blast+
  have before': "\<forall>m<n. \<exists>s' u. smrng_lq_passes ?E p xeps st0 m = Some s' \<and>
        smrng_lq_eval ?E p xeps (int m + 1) s' = Some u \<and>
        \<not> (\<bar>lq_x2 u - lq_x1 u\<bar> < xeps \<and> \<bar>lq_y u - p\<bar> < peps)"
    using before unfolding smrng_lq_done_def .
  have x': "if \<bar>lq_x2 t - lq_x1 t\<bar> < xeps \<and> \<bar>lq_y t - p\<bar> < peps then stf = t
            else n = 199 \<and> stf = smrng_lq_update p t"
    using x unfolding smrng_lq_done_def .
  note ef = eval_fields[OF e]
  have sx: "lq_x stf = lq_x t" and si: "lq_itr stf = lq_itr t"
    using x by (auto simp: update_itr split: if_splits)
  have it: "lq_itr stf = lq_itr st0 + int n + 1"
    using si ef head_itr[OF h] by simp
  from f n ps e before' x' ef sx it r show ?thesis
    by blast
qed

lemma unif_lp_sqrt2: "smrng_lp unif_p (sqrt 2) 2 0 1 = Some (1 / 2)"
proof -
  have "(0::real) < sqrt 2" by simp
  from unif_lp[OF this] show ?thesis by simp
qed

lemma passes_1_at_half:
  "smrng_lq_passes (\<lambda>x. smrng_lp unif_p x 2 0 1) (1 / 2) 3
     \<lparr>lq_x1 = 0, lq_y1 = 0, lq_x2 = 2, lq_y2 = sqrt 2 / 2, lq_x3 = 2, lq_y3 = sqrt 2 / 2,
      lq_x = 0, lq_y = 0, lq_itr = 1\<rparr> 1 =
   Some \<lparr>lq_x1 = 1, lq_y1 = sqrt 2 / 4, lq_x2 = 2, lq_y2 = sqrt 2 / 2, lq_x3 = 0, lq_y3 = 0,
      lq_x = 1, lq_y = sqrt 2 / 4, lq_itr = 2\<rparr>"
proof -
  have "\<not> 1 / 2 \<le> sqrt 2 / 4" using sqrt2_bounds by linarith
  then show ?thesis
    unfolding One_nat_def smrng_lq_passes.simps
    by (simp add: eval_pass_1 smrng_lq_update_def)
qed

lemma eval_pass_2:
  "smrng_lq_eval (\<lambda>x. smrng_lp unif_p x 2 0 1) (1 / 2) 3 2
     \<lparr>lq_x1 = 1, lq_y1 = sqrt 2 / 4, lq_x2 = 2, lq_y2 = sqrt 2 / 2, lq_x3 = 0, lq_y3 = 0,
      lq_x = 1, lq_y = sqrt 2 / 4, lq_itr = 2\<rparr> =
   Some \<lparr>lq_x1 = 1, lq_y1 = sqrt 2 / 4, lq_x2 = 2, lq_y2 = sqrt 2 / 2, lq_x3 = 0, lq_y3 = 0,
      lq_x = sqrt 2, lq_y = 1 / 2, lq_itr = 3\<rparr>"
  unfolding smrng_lq_eval_def Let_def trial_pass_2 unif_lp_sqrt2 by simp

text \<open>
  The theorem at the run with \<open>p = 1/2\<close>, \<open>k = 2\<close>, \<open>df = 0\<close>, \<open>nrng = 1\<close>, \<open>xeps = 3\<close>,
  \<open>peps = 1/10\<close>. The trial of pass 1 is \<open>x = 1\<close> with \<open>y = \<surd>2/4\<close>: the bracket \<open>[0, 2]\<close> is
  narrower than \<open>xeps\<close>, but \<open>|y - p| \<ge> peps\<close>, and the loop goes on. The trial of pass 2 is
  \<open>x = \<surd>2\<close> with \<open>y = 1/2\<close>: both tolerances hold, and \<^verbatim>\<open>smrng_lq\<close> returns \<open>\<surd>2\<close> with 3
  evaluations counted.
\<close>

theorem refinement_exit_witness:
  "\<bar>(2::real) - 0\<bar> < 3 \<and> 1 / 10 \<le> \<bar>sqrt 2 / 4 - 1 / 2\<bar> \<and>
   \<bar>(2::real) - 1\<bar> < 3 \<and> \<bar>(1::real) / 2 - 1 / 2\<bar> < 1 / 10 \<and>
   smrng_lq_for (\<lambda>x. smrng_lp unif_p x 2 0 1) (1 / 2) 3 (1 / 10) 1
     \<lparr>lq_x1 = 0, lq_y1 = 0, lq_x2 = 2, lq_y2 = sqrt 2 / 2, lq_x3 = 2, lq_y3 = sqrt 2 / 2,
      lq_x = 0, lq_y = 0, lq_itr = 1\<rparr> =
     Some \<lparr>lq_x1 = 1, lq_y1 = sqrt 2 / 4, lq_x2 = 2, lq_y2 = sqrt 2 / 2, lq_x3 = 0, lq_y3 = 0,
      lq_x = sqrt 2, lq_y = 1 / 2, lq_itr = 3\<rparr> \<and>
   smrng_lq unif_p (1 / 2) 2 0 1 3 (1 / 10) = Some (sqrt 2, 3)"
proof -
  let ?E = "\<lambda>x. smrng_lp unif_p x 2 0 1"
  let ?s0 = "\<lparr>lq_x1 = 0, lq_y1 = 0, lq_x2 = 2, lq_y2 = sqrt 2 / 2, lq_x3 = 2, lq_y3 = sqrt 2 / 2,
      lq_x = 0, lq_y = 0, lq_itr = 1\<rparr>"
  let ?t0 = "\<lparr>lq_x1 = 0, lq_y1 = 0, lq_x2 = 2, lq_y2 = sqrt 2 / 2, lq_x3 = 2, lq_y3 = sqrt 2 / 2,
      lq_x = 1, lq_y = sqrt 2 / 4, lq_itr = 2\<rparr>"
  let ?s1 = "\<lparr>lq_x1 = 1, lq_y1 = sqrt 2 / 4, lq_x2 = 2, lq_y2 = sqrt 2 / 2, lq_x3 = 0, lq_y3 = 0,
      lq_x = 1, lq_y = sqrt 2 / 4, lq_itr = 2\<rparr>"
  let ?t1 = "\<lparr>lq_x1 = 1, lq_y1 = sqrt 2 / 4, lq_x2 = 2, lq_y2 = sqrt 2 / 2, lq_x3 = 0, lq_y3 = 0,
      lq_x = sqrt 2, lq_y = 1 / 2, lq_itr = 3\<rparr>"
  have "sqrt 2 < 3 / 2" using sqrt2_bounds by blast
  then have far: "\<not> \<bar>sqrt 2 / 4 - 1 / 2\<bar> < 1 / 10" by linarith
  have d0: "\<not> (\<bar>lq_x2 ?t0 - lq_x1 ?t0\<bar> < 3 \<and> \<bar>lq_y ?t0 - 1 / 2\<bar> < 1 / 10)"
    using far by simp
  have d1: "\<bar>lq_x2 ?t1 - lq_x1 ?t1\<bar> < 3 \<and> \<bar>lq_y ?t1 - 1 / 2\<bar> < 1 / 10"
    by simp
  have p0: "smrng_lq_passes ?E (1 / 2) 3 ?s0 0 = Some ?s0" by simp
  have e0: "smrng_lq_eval ?E (1 / 2) 3 (int 0 + 1) ?s0 = Some ?t0"
    using eval_pass_1[of 3] by simp
  have p1: "smrng_lq_passes ?E (1 / 2) 3 ?s0 1 = Some ?s1" by (rule passes_1_at_half)
  have e1: "smrng_lq_eval ?E (1 / 2) 3 (int 1 + 1) ?s1 = Some ?t1"
    using eval_pass_2 by simp
  from refinement_exit[where N = unif_p and k = 2 and df = 0 and nrng = 1 and p = "1 / 2"
      and xeps = 3 and peps = "1 / 10" and ?st0.0 = ?s0]
  obtain stf n s t where
    f: "smrng_lq_for ?E (1 / 2) 3 (1 / 10) 1 ?s0 = Some stf"
    and ps: "smrng_lq_passes ?E (1 / 2) 3 ?s0 n = Some s"
    and ev: "smrng_lq_eval ?E (1 / 2) 3 (int n + 1) s = Some t"
    and before: "\<forall>m<n. \<exists>s' u. smrng_lq_passes ?E (1 / 2) 3 ?s0 m = Some s' \<and>
        smrng_lq_eval ?E (1 / 2) 3 (int m + 1) s' = Some u \<and>
        \<not> (\<bar>lq_x2 u - lq_x1 u\<bar> < 3 \<and> \<bar>lq_y u - 1 / 2\<bar> < 1 / 10)"
    and ex: "if \<bar>lq_x2 t - lq_x1 t\<bar> < 3 \<and> \<bar>lq_y t - 1 / 2\<bar> < 1 / 10 then stf = t
             else n = 199 \<and> stf = smrng_lq_update (1 / 2) t"
    and r: "0 < (1 / 2 :: real) \<and> (1 / 2 :: real) < 1 \<and> smrng_lq_bracket ?E (1 / 2) = Some ?s0 \<longrightarrow>
        smrng_lq unif_p (1 / 2) 2 0 1 3 (1 / 10) = Some (lq_x stf, lq_itr stf)"
    by blast
  have n0: "n \<noteq> 0"
  proof
    assume z: "n = 0"
    with ps p0 have "s = ?s0" by simp
    with ev e0 z have "t = ?t0" by simp
    with ex d0 have "n = 199" by (simp only: if_False)
    with z show False by simp
  qed
  have n1: "\<not> 1 < n"
  proof
    assume "1 < n"
    with before obtain s' u where a: "smrng_lq_passes ?E (1 / 2) 3 ?s0 1 = Some s'"
      and b: "smrng_lq_eval ?E (1 / 2) 3 (int 1 + 1) s' = Some u"
      and c: "\<not> (\<bar>lq_x2 u - lq_x1 u\<bar> < 3 \<and> \<bar>lq_y u - 1 / 2\<bar> < 1 / 10)"
      by blast
    from a p1 have "s' = ?s1" by simp
    with b e1 have "u = ?t1" by simp
    with c d1 show False by blast
  qed
  from n0 n1 have n: "n = 1" by simp
  with ps p1 have "s = ?s1" by simp
  with ev e1 n have t: "t = ?t1" by simp
  with ex d1 have s: "stf = ?t1" by (simp only: if_True)
  have "smrng_lq unif_p (1 / 2) 2 0 1 3 (1 / 10) = Some (lq_x stf, lq_itr stf)"
    using r bracket_at_half by simp
  then have q: "smrng_lq unif_p (1 / 2) 2 0 1 3 (1 / 10) = Some (sqrt 2, 3)"
    unfolding s by simp
  have w1: "\<bar>(2::real) - 0\<bar> < 3 \<and> 1 / 10 \<le> \<bar>sqrt 2 / 4 - 1 / 2\<bar>"
    using far by simp
  have w2: "\<bar>(2::real) - 1\<bar> < 3 \<and> \<bar>(1::real) / 2 - 1 / 2\<bar> < 1 / 10"
    by simp
  from w1 w2 f[unfolded s] q show ?thesis by blast
qed

end
